theory Spec2Isabelle
  imports Complex_Main
begin

section \<open>The Go string functions the program calls\<close>

text \<open>
  A Go string is a sequence of bytes, here a \<^typ>\<open>string\<close> (a list of 8-bit characters);
  text outside ASCII is its UTF-8 encoding, written byte by byte. The functions below are
  the ones of package \<^verbatim>\<open>strings\<close> that \<^verbatim>\<open>main.go\<close> calls, under their Go names.
\<close>

fun HasPrefix :: "string \<Rightarrow> string \<Rightarrow> bool" where
  "HasPrefix s [] = True"
| "HasPrefix [] (p # ps) = False"
| "HasPrefix (c # cs) (p # ps) = (c = p \<and> HasPrefix cs ps)"

fun Contains :: "string \<Rightarrow> string \<Rightarrow> bool" where
  "Contains [] sub = (sub = [])"
| "Contains (c # cs) sub = (HasPrefix (c # cs) sub \<or> Contains cs sub)"

fun Join :: "string list \<Rightarrow> string \<Rightarrow> string" where
  "Join [] sep = []"
| "Join [x] sep = x"
| "Join (x # y # ys) sep = x @ sep @ Join (y # ys) sep"

text \<open>
  \<^verbatim>\<open>strings.Split(s, sep)\<close> cuts \<open>s\<close> at the occurrences of \<open>sep\<close> found from the left,
  and always returns at least one piece. The program passes the one-byte separators
  \<^verbatim>\<open>"\n"\<close> and \<^verbatim>\<open>";"\<close>; for an empty separator Go cuts after every UTF-8 sequence, which
  the first branch gives for ASCII text.
\<close>

function Split :: "string \<Rightarrow> string \<Rightarrow> string list" where
  "Split s sep =
     (if sep = [] then map (\<lambda>c. [c]) s
      else if s = [] then [[]]
      else if HasPrefix s sep then [] # Split (drop (length sep) s) sep
      else (let r = Split (tl s) sep in (hd s # hd r) # tl r))"
  by pat_completeness auto
termination
  by (relation "measure (\<lambda>(s, sep). length s)") auto

declare Split.simps [simp del]

text \<open>
  \<^verbatim>\<open>strings.ReplaceAll(s, old, new)\<close> replaces the non-overlapping occurrences of \<open>old\<close>,
  found from the left. Both calls of the program pass a non-empty \<open>old\<close>; for an empty one
  Go inserts \<open>new\<close> before every UTF-8 sequence and at the end (first branch, for ASCII).
\<close>

function ReplaceAll :: "string \<Rightarrow> string \<Rightarrow> string \<Rightarrow> string" where
  "ReplaceAll s old new =
     (if old = [] then new @ concat (map (\<lambda>c. c # new) s)
      else if s = [] then []
      else if HasPrefix s old then new @ ReplaceAll (drop (length old) s) old new
      else hd s # ReplaceAll (tl s) old new)"
  by pat_completeness auto
termination
  by (relation "measure (\<lambda>(s, old, new). length s)") auto

declare ReplaceAll.simps [simp del]

subsection \<open>White space\<close>

text \<open>
  \<^verbatim>\<open>strings.TrimSpace\<close> and \<^verbatim>\<open>strings.Fields\<close> use \<^verbatim>\<open>unicode.IsSpace\<close>: the six ASCII
  characters tab, line feed, vertical tab, form feed, carriage return and space, and the
  code points U+0085, U+00A0, U+1680, U+2000 to U+200A, U+2028, U+2029, U+202F, U+205F and
  U+3000. In a byte string each of them is its UTF-8 encoding; a byte above 0x7F that is not
  part of such an encoding is never white space.
\<close>

definition whiteSpace :: "string list" where
  "whiteSpace =
     [[CHR 0x09], [CHR 0x0A], [CHR 0x0B], [CHR 0x0C], [CHR 0x0D], [CHR 0x20],
      [CHR 0xC2, CHR 0x85], [CHR 0xC2, CHR 0xA0], [CHR 0xE1, CHR 0x9A, CHR 0x80],
      [CHR 0xE2, CHR 0x80, CHR 0x80], [CHR 0xE2, CHR 0x80, CHR 0x81],
      [CHR 0xE2, CHR 0x80, CHR 0x82], [CHR 0xE2, CHR 0x80, CHR 0x83],
      [CHR 0xE2, CHR 0x80, CHR 0x84], [CHR 0xE2, CHR 0x80, CHR 0x85],
      [CHR 0xE2, CHR 0x80, CHR 0x86], [CHR 0xE2, CHR 0x80, CHR 0x87],
      [CHR 0xE2, CHR 0x80, CHR 0x88], [CHR 0xE2, CHR 0x80, CHR 0x89],
      [CHR 0xE2, CHR 0x80, CHR 0x8A], [CHR 0xE2, CHR 0x80, CHR 0xA8],
      [CHR 0xE2, CHR 0x80, CHR 0xA9], [CHR 0xE2, CHR 0x80, CHR 0xAF],
      [CHR 0xE2, CHR 0x81, CHR 0x9F], [CHR 0xE3, CHR 0x80, CHR 0x80]]"

lemma whiteSpace_nonempty: "sp \<in> set whiteSpace \<Longrightarrow> sp \<noteq> []"
  by (auto simp: whiteSpace_def)

lemma HasPrefix_length: "HasPrefix s p \<Longrightarrow> length p \<le> length s"
  by (induction s p rule: HasPrefix.induct) auto

text \<open>The number of bytes of the white-space character \<open>s\<close> starts with, 0 when it starts
  with none; and the same for the character \<open>s\<close> ends with.\<close>

definition spaceAtStart :: "string \<Rightarrow> nat" where
  "spaceAtStart s = (case find (HasPrefix s) whiteSpace of None \<Rightarrow> 0 | Some sp \<Rightarrow> length sp)"

definition spaceAtEnd :: "string \<Rightarrow> nat" where
  "spaceAtEnd s =
     (case find (\<lambda>sp. HasPrefix (rev s) (rev sp)) whiteSpace of None \<Rightarrow> 0 | Some sp \<Rightarrow> length sp)"

lemma spaceAtStart_le: "spaceAtStart s \<le> length s"
  by (auto simp: spaceAtStart_def find_Some_iff split: option.splits dest: HasPrefix_length)

lemma spaceAtEnd_le: "spaceAtEnd s \<le> length s"
  by (auto simp: spaceAtEnd_def find_Some_iff split: option.splits dest: HasPrefix_length)

lemma spaceAtStart_less: "0 < spaceAtStart s \<Longrightarrow> length s - spaceAtStart s < length s"
  using spaceAtStart_le [of s] by arith

lemma spaceAtEnd_less: "0 < spaceAtEnd s \<Longrightarrow> length s - spaceAtEnd s < length s"
  using spaceAtEnd_le [of s] by arith

function TrimLeftSpace :: "string \<Rightarrow> string" where
  "TrimLeftSpace s = (if spaceAtStart s = 0 then s else TrimLeftSpace (drop (spaceAtStart s) s))"
  by pat_completeness auto
termination
  by (relation "measure length") (auto simp: spaceAtStart_less)

declare TrimLeftSpace.simps [simp del]

function TrimRightSpace :: "string \<Rightarrow> string" where
  "TrimRightSpace s =
     (if spaceAtEnd s = 0 then s else TrimRightSpace (take (length s - spaceAtEnd s) s))"
  by pat_completeness auto
termination
  by (relation "measure length") (auto simp: spaceAtEnd_less)

declare TrimRightSpace.simps [simp del]

definition TrimSpace :: "string \<Rightarrow> string" where
  "TrimSpace s = TrimRightSpace (TrimLeftSpace s)"

text \<open>\<^verbatim>\<open>strings.Fields\<close>: the maximal runs of bytes between white space; \<open>cur\<close> is the
  run being read, newest byte first.\<close>

function fieldsFrom :: "string \<Rightarrow> string \<Rightarrow> string list" where
  "fieldsFrom cur s =
     (if s = [] then (if cur = [] then [] else [rev cur])
      else if spaceAtStart s = 0 then fieldsFrom (hd s # cur) (tl s)
      else (if cur = [] then [] else [rev cur]) @ fieldsFrom [] (drop (spaceAtStart s) s))"
  by pat_completeness auto
termination
  by (relation "measure (\<lambda>(cur, s). length s)") (auto simp: spaceAtStart_less)

declare fieldsFrom.simps [simp del]

definition Fields :: "string \<Rightarrow> string list" where
  "Fields s = fieldsFrom [] s"

text \<open>\<^verbatim>\<open>strings.ToLower\<close> on the ASCII letters. The program only compares the result with
  \<^verbatim>\<open>"y"\<close>, and \<open>Y\<close> is the only other character whose lower case is \<open>y\<close>.\<close>

definition lowerByte :: "char \<Rightarrow> char" where
  "lowerByte c =
     (case map_of (zip ''ABCDEFGHIJKLMNOPQRSTUVWXYZ'' ''abcdefghijklmnopqrstuvwxyz'') c of
        None \<Rightarrow> c | Some l \<Rightarrow> l)"

definition ToLower :: "string \<Rightarrow> string" where
  "ToLower s = map lowerByte s"

subsection \<open>The regular expression of the emoji step\<close>

text \<open>
  \<^verbatim>\<open>regexp.MustCompile(`\b[a-zA-Z]+\b`).FindString(s)\<close> returns the leftmost match, or the
  empty string when there is none. \<^verbatim>\<open>\b\<close> is the ASCII word boundary: one side is a word
  character (\<^verbatim>\<open>[0-9A-Za-z_]\<close>) and the other is not. A match starting at a position needs a
  letter there with no word character before it; \<^verbatim>\<open>[a-zA-Z]+\<close> then takes letters, and the
  closing \<^verbatim>\<open>\b\<close> holds only after the whole run of letters, when no word character follows
  (after a shorter run a letter follows a letter). \<open>prevWord\<close> tells whether the byte before
  \<open>s\<close> is a word character.
\<close>

definition isLetter :: "char \<Rightarrow> bool" where
  "isLetter c = (c \<in> set ''abcdefghijklmnopqrstuvwxyzABCDEFGHIJKLMNOPQRSTUVWXYZ'')"

definition isWordChar :: "char \<Rightarrow> bool" where
  "isWordChar c = (isLetter c \<or> c \<in> set ''0123456789_'')"

fun findWord :: "bool \<Rightarrow> string \<Rightarrow> string" where
  "findWord prevWord [] = []"
| "findWord prevWord (c # cs) =
     (if \<not> prevWord \<and> isLetter c \<and>
         (dropWhile isLetter cs = [] \<or> \<not> isWordChar (hd (dropWhile isLetter cs)))
      then c # takeWhile isLetter cs
      else findWord (isWordChar c) cs)"

definition FindString :: "string \<Rightarrow> string" where
  "FindString s = findWord False s"

section \<open>Constants of the program\<close>

definition regenerateMsg :: string where
  "regenerateMsg =
     [CHR 0xE2, CHR 0x99, CHR 0xBB, CHR 0xEF, CHR 0xB8, CHR 0x8F] @ '' Regenerate Commit Messages''"

definition typeToGitmoji :: "string \<rightharpoonup> string" where
  "typeToGitmoji = map_of
     [(''feat'', [CHR 0xE2, CHR 0x9C, CHR 0xA8]),
      (''fix'', [CHR 0xF0, CHR 0x9F, CHR 0x9A, CHR 0x91]),
      (''docs'', [CHR 0xF0, CHR 0x9F, CHR 0x93, CHR 0x9D]),
      (''style'', [CHR 0xF0, CHR 0x9F, CHR 0x92, CHR 0x84]),
      (''refactor'', [CHR 0xE2, CHR 0x99, CHR 0xBB, CHR 0xEF, CHR 0xB8, CHR 0x8F]),
      (''test'', [CHR 0xE2, CHR 0x9C, CHR 0x85]),
      (''chore'', [CHR 0xF0, CHR 0x9F, CHR 0x94, CHR 0xA7])]"

section \<open>The emoji step\<close>

definition addGitmojiToCommitMessage :: "string \<Rightarrow> string" where
  "addGitmojiToCommitMessage commitMessage =
     (let match = FindString commitMessage in
      if match = [] then commitMessage
      else (case typeToGitmoji match of
              Some gitmoji \<Rightarrow> gitmoji @ '' '' @ commitMessage
            | None \<Rightarrow> commitMessage))"

section \<open>The world outside the program\<close>

text \<open>
  The program runs \<^verbatim>\<open>git\<close> as a subprocess, posts to the inference endpoint, reads
  standard input and writes to the console. The world holds what each of them will answer
  (the head, index 0, is the next answer; a read drops it) and the trace of what the
  program has done so far, oldest event first. Integers are Go's \<^verbatim>\<open>int\<close>; the program
  only compares them, so they are unbounded here.
\<close>

type_synonym error = string

record OllamaRequest =
  Model :: string
  Prompt :: string
  Stream :: bool
  MaxTokens :: int
  TopP :: int
  Temperature :: int
  RepetitionPenalty :: int

datatype console =
    Provider string
  | NoChanges
  | TooLarge int
  | Fee rat
  | Proposed bool string
  | Menu "string list"
  | InvalidChoice
  | AskContinue
  | Aborted
  | Committing
  | Successful

datatype event =
    Exec "string list"
  | Post OllamaRequest
  | Print console
  | LogFatal error

record world =
  gitRevParse :: "error + string"
  gitDiff :: "nat \<Rightarrow> error + string"
  gitBranch :: "nat \<Rightarrow> error + string"
  gitCommit :: "nat \<Rightarrow> error option"
  ollama :: "nat \<Rightarrow> OllamaRequest \<Rightarrow> error + string"
  stdinLine :: "nat \<Rightarrow> string"
  stdinChoice :: "nat \<Rightarrow> int"
  trace :: "event list"

text \<open>
  \<open>gitDiff w n\<close> is what \<^verbatim>\<open>cmd.Output()\<close> returns at the \<open>n\<close>-th run of
  \<^verbatim>\<open>git diff --staged\<close> from now on, and so on for the other commands; \<open>ollama w n req\<close> is
  the \<^verbatim>\<open>response\<close> field of the reply to the \<open>n\<close>-th request, or the error of the
  request or of the decoding; \<open>stdinLine w n\<close> is the \<open>n\<close>-th line that
  \<^verbatim>\<open>ReadString('\n')\<close> returns (what was read when the input ends; its error is ignored
  by the program); \<open>stdinChoice w n\<close> is the value \<^verbatim>\<open>fmt.Scanln(&choice)\<close> leaves in
  \<^verbatim>\<open>choice\<close> at the \<open>n\<close>-th menu (0 when it stores nothing).
\<close>

text \<open>A call either returns or ends the process (\<^verbatim>\<open>os.Exit\<close>, \<^verbatim>\<open>log.Fatal\<close>).\<close>

datatype 'a result = Ret 'a | Exit int

definition emit :: "event \<Rightarrow> world \<Rightarrow> world" where
  "emit e w = w\<lparr>trace := trace w @ [e]\<rparr>"

definition logFatal :: "error \<Rightarrow> world \<Rightarrow> 'a result \<times> world" where
  "logFatal err w = (Exit 1, emit (LogFatal err) w)"

definition runGitRevParse :: "world \<Rightarrow> (error + string) \<times> world" where
  "runGitRevParse w =
     (gitRevParse w, emit (Exec [''git'', ''rev-parse'', ''--is-inside-work-tree'']) w)"

definition runGitDiff :: "string list \<Rightarrow> world \<Rightarrow> (error + string) \<times> world" where
  "runGitDiff args w =
     (gitDiff w 0, emit (Exec args) (w\<lparr>gitDiff := (\<lambda>n. gitDiff w (Suc n))\<rparr>))"

definition runGitBranch :: "world \<Rightarrow> (error + string) \<times> world" where
  "runGitBranch w =
     (gitBranch w 0,
      emit (Exec [''git'', ''branch'', ''--show-current''])
        (w\<lparr>gitBranch := (\<lambda>n. gitBranch w (Suc n))\<rparr>))"

definition runGitCommit :: "string \<Rightarrow> world \<Rightarrow> error option \<times> world" where
  "runGitCommit commitMessage w =
     (gitCommit w 0,
      emit (Exec [''git'', ''commit'', ''-m'', commitMessage])
        (w\<lparr>gitCommit := (\<lambda>n. gitCommit w (Suc n))\<rparr>))"

definition httpPost :: "OllamaRequest \<Rightarrow> world \<Rightarrow> (error + string) \<times> world" where
  "httpPost req w =
     (ollama w 0 req, emit (Post req) (w\<lparr>ollama := (\<lambda>n. ollama w (Suc n))\<rparr>))"

definition readString :: "world \<Rightarrow> string \<times> world" where
  "readString w = (stdinLine w 0, w\<lparr>stdinLine := (\<lambda>n. stdinLine w (Suc n))\<rparr>)"

definition scanChoice :: "world \<Rightarrow> int \<times> world" where
  "scanChoice w = (stdinChoice w 0, w\<lparr>stdinChoice := (\<lambda>n. stdinChoice w (Suc n))\<rparr>)"

section \<open>The diff collector\<close>

text \<open>
  Modelled from the spec: the text diff \<^verbatim>\<open>DiffMain\<close> of the library
  \<^verbatim>\<open>github.com/sergi/go-diff\<close>, which the program imports and the repository does not
  contain. The specification has it split the captured output, compared with the empty
  string, into equal, insert and delete regions. The program's only call is
  \<^verbatim>\<open>DiffMain(output, "", true)\<close>: with nothing to keep and nothing to insert the answer
  is one delete region holding the whole first text, and no region when the first text is
  empty too. The library reads the text as Unicode characters, which for UTF-8 text are the
  bytes read here. Calls with a non-empty second text are left out of the model.
\<close>

datatype Operation = DiffDelete | DiffInsert | DiffEqual

record Diff =
  Type :: Operation
  Text :: string

fun DiffMain :: "string \<Rightarrow> string \<Rightarrow> bool \<Rightarrow> Diff list" where
  "DiffMain text1 [] checklines =
     (if text1 = [] then [] else [\<lparr>Type = DiffDelete, Text = text1\<rparr>])"

text \<open>The loop of \<^verbatim>\<open>getGitDiff\<close> over the regions (lines 116 to 129): the lines it keeps.\<close>

fun diffLines :: "Diff list \<Rightarrow> string list" where
  "diffLines [] = []"
| "diffLines (d # ds) =
     (if Type d = DiffEqual then diffLines ds
      else filter (\<lambda>line. \<not> (HasPrefix line ''@@'' \<or> HasPrefix line ''diff --git''))
             (Split (Text d) [CHR 0x0A]) @ diffLines ds)"

text \<open>What \<^verbatim>\<open>getGitDiff\<close> makes of the output it captured (lines 113 to 131).\<close>

definition filterOutput :: "string \<Rightarrow> string" where
  "filterOutput output = Join (diffLines (DiffMain output [] True)) [CHR 0x0A]"

definition getGitDiff :: "string \<Rightarrow> world \<Rightarrow> string result \<times> world" where
  "getGitDiff filterFiles w =
     (case runGitDiff ([''git'', ''diff'', ''--staged'', ''--no-color'', ''--no-prefix'']
                        @ (if filterFiles \<noteq> [] then [filterFiles] else [])) w of
        (Inl err, w1) \<Rightarrow> logFatal err w1
      | (Inr output, w1) \<Rightarrow> (Ret (filterOutput output), w1))"

definition checkGitRepository :: "world \<Rightarrow> bool \<times> world" where
  "checkGitRepository w =
     (case runGitRevParse w of
        (Inl err, w1) \<Rightarrow> (False, w1)
      | (Inr output, w1) \<Rightarrow> (TrimSpace output = ''true'', w1))"

section \<open>The prompts\<close>

fun decimal :: "nat \<Rightarrow> string" where
  "decimal n =
     (if n < 10 then [''0123456789'' ! n] else decimal (n div 10) @ [''0123456789'' ! (n mod 10)])"

declare decimal.simps [simp del]

definition Sprint :: "int \<Rightarrow> string" where
  "Sprint i = (if i < 0 then ''-'' @ decimal (nat (- i)) else decimal (nat i))"

definition getPromptForSingleCommit :: "string \<Rightarrow> string \<Rightarrow> string \<Rightarrow> string" where
  "getPromptForSingleCommit diff commitType language =
     ''From the following git diff create a short, useful git commit message in '' @ language
       @ '' language''
     @ (if commitType \<noteq> [] then '' with commit type '' @ [CHR 0x27] @ commitType @ [CHR 0x27] @ ''. ''
        else ''. '')
     @ ''Do not preface the commit with anything, use the present tense, return the full sentence, ''
     @ ''and use the conventional commits specification (<type in lowercase>: <subject>): ''
     @ ''START OF GIT DIFF:'' @ [CHR 0x0A]
     @ diff
     @ [CHR 0x0A] @ ''END OF GIT DIFF''"

definition getPromptForListCommits :: "string \<Rightarrow> string \<Rightarrow> string \<Rightarrow> int \<Rightarrow> string" where
  "getPromptForListCommits diff commitType language numOptions =
     ''From the following git diff create a short, useful git commit message in '' @ language
       @ '' language''
     @ (if commitType \<noteq> [] then '' with commit type '' @ [CHR 0x27] @ commitType @ [CHR 0x27] @ '', ''
        else '', '')
     @ ''and make '' @ Sprint numOptions @ '' options that are separated by '' @ [CHR 0x27]
       @ '';'' @ [CHR 0x27] @ ''. ''
     @ ''For each option, use the present tense, return the full sentence, ''
     @ ''and use the conventional commits specification (<type in lowercase>: <subject>): ''
     @ ''START OF GIT DIFF:'' @ [CHR 0x0A]
     @ diff
     @ [CHR 0x0A] @ ''END OF GIT DIFF''"

section \<open>The cost filter\<close>

text \<open>
  The fee is a \<^verbatim>\<open>float64\<close> in the program, used only to print it; here it is the exact
  rational value of the same expression.
\<close>

definition estimatedFee :: "nat \<Rightarrow> int \<Rightarrow> rat" where
  "estimatedFee numTokens numCompletion =
     of_nat numTokens / 1000 * (2 / 100) + (1 / 1000) * of_int numCompletion"

definition filterAPI ::
  "string \<Rightarrow> int \<Rightarrow> int \<Rightarrow> bool \<Rightarrow> world \<Rightarrow> (bool \<times> error option) \<times> world" where
  "filterAPI prompt numCompletion maxTokens filterFee w =
     (let numTokens = length (Fields prompt);
          fee = estimatedFee numTokens numCompletion
      in if int numTokens > maxTokens then ((False, None), emit (Print (TooLarge maxTokens)) w)
         else if filterFee then
           (case readString (emit (Print (Fee fee)) w) of
              (answer, w1) \<Rightarrow>
                if ToLower (TrimSpace answer) \<noteq> ''y'' then ((False, None), w1)
                else ((True, None), w1))
         else ((True, None), w))"

section \<open>The inference client\<close>

definition sendMessageOllama ::
  "string \<Rightarrow> string \<Rightarrow> int \<Rightarrow> int \<Rightarrow> int \<Rightarrow> int \<Rightarrow> world \<Rightarrow> (string \<times> error option) \<times> world" where
  "sendMessageOllama prompt model maxTokens topP temperature repetitionPenalty w =
     (let data = \<lparr>Model = model, Prompt = prompt, Stream = False, MaxTokens = maxTokens,
                   TopP = topP, Temperature = temperature,
                   RepetitionPenalty = repetitionPenalty\<rparr>
      in case httpPost data w of
           (Inl err, w1) \<Rightarrow> (([], Some err), w1)
         | (Inr response, w1) \<Rightarrow> ((response, None), w1))"

section \<open>The template step and the commit\<close>

definition processTemplate :: "string \<Rightarrow> string \<Rightarrow> world \<Rightarrow> string result \<times> world" where
  "processTemplate template commitMessage w =
     (let finalCommitMessage = ReplaceAll template ''{COMMIT_MESSAGE}'' commitMessage
      in if Contains finalCommitMessage ''{GIT_BRANCH}'' then
           (case runGitBranch w of
              (Inl err, w1) \<Rightarrow> logFatal err w1
            | (Inr output, w1) \<Rightarrow>
                (Ret (ReplaceAll finalCommitMessage ''{GIT_BRANCH}'' (TrimSpace output)), w1))
         else (Ret finalCommitMessage, w))"

definition makeCommit :: "string \<Rightarrow> world \<Rightarrow> unit result \<times> world" where
  "makeCommit commitMessage w =
     (case runGitCommit commitMessage (emit (Print Committing) w) of
        (Some err, w1) \<Rightarrow> logFatal err w1
      | (None, w1) \<Rightarrow> (Ret (), emit (Print Successful) w1))"

section \<open>The two modes\<close>

text \<open>The command-line flags, read once by \<^verbatim>\<open>main\<close> and passed on to both modes.\<close>

record flags =
  flagModel :: string
  flagLanguage :: string
  flagTemplate :: string
  flagEmoji :: bool
  flagCommitType :: string
  flagList :: bool
  flagForce :: bool
  flagFilterFee :: bool
  flagMaxTokens :: int
  flagTopP :: int
  flagTemperature :: int
  flagRepetitionPenalty :: int
  flagFilterFiles :: string

text \<open>
  Single mode. The first thing the function does is to assign its parameter \<open>diff\<close> anew
  from \<^verbatim>\<open>getGitDiff(filterFiles)\<close> (line 135); the value \<^verbatim>\<open>main\<close> passed is not read.
  The result is the \<^verbatim>\<open>error\<close> the function returns (\<open>None\<close> is \<^verbatim>\<open>nil\<close>).
\<close>

definition generateSingleCommit :: "string \<Rightarrow> flags \<Rightarrow> world \<Rightarrow> error option result \<times> world" where
  "generateSingleCommit diff fl w =
     (case getGitDiff (flagFilterFiles fl) w of
        (Exit st, w1) \<Rightarrow> (Exit st, w1)
      | (Ret diff', w1) \<Rightarrow>
          if diff' = [] then (Exit 1, emit (Print NoChanges) w1)
          else
            let prompt = getPromptForSingleCommit diff' (flagCommitType fl) (flagLanguage fl)
            in case filterAPI prompt 1 (flagMaxTokens fl) (flagFilterFee fl) w1 of
                 ((proceed, Some err), w2) \<Rightarrow> (Ret (Some err), w2)
               | ((proceed, None), w2) \<Rightarrow>
                   if \<not> proceed then (Exit 1, w2)
                   else
                     (case sendMessageOllama prompt (flagModel fl) (flagMaxTokens fl) (flagTopP fl)
                             (flagTemperature fl) (flagRepetitionPenalty fl) w2 of
                        ((text, Some err), w3) \<Rightarrow> (Ret (Some err), w3)
                      | ((text, None), w3) \<Rightarrow>
                          let withEmoji =
                                (if flagEmoji fl then addGitmojiToCommitMessage text else text)
                          in case (if flagTemplate fl \<noteq> []
                                   then processTemplate (flagTemplate fl) withEmoji w3
                                   else (Ret withEmoji, w3)) of
                               (Exit st, w4) \<Rightarrow> (Exit st, w4)
                             | (Ret finalCommitMessage, w4) \<Rightarrow>
                                 let w5 = emit (Print (Proposed (flagTemplate fl \<noteq> [])
                                                         finalCommitMessage)) w4
                                 in if flagForce fl then
                                      (case makeCommit finalCommitMessage w5 of
                                         (Exit st, w6) \<Rightarrow> (Exit st, w6)
                                       | (Ret u, w6) \<Rightarrow> (Ret None, w6))
                                    else
                                      (case readString (emit (Print AskContinue) w5) of
                                         (answer, w6) \<Rightarrow>
                                           if ToLower (TrimSpace answer) \<noteq> ''y''
                                           then (Exit 1, emit (Print Aborted) w6)
                                           else
                                             (case makeCommit finalCommitMessage w6 of
                                                (Exit st, w7) \<Rightarrow> (Exit st, w7)
                                              | (Ret u, w7) \<Rightarrow> (Ret None, w7)))))"

text \<open>
  List mode. The loop over the pieces of the reply (lines 206 to 214): each piece is
  trimmed, then given its emoji and put into the template when these are switched on.
\<close>

fun postProcess :: "bool \<Rightarrow> string \<Rightarrow> string list \<Rightarrow> world \<Rightarrow> string list result \<times> world" where
  "postProcess doAddEmoji template [] w = (Ret [], w)"
| "postProcess doAddEmoji template (m # ms) w =
     (let trimmed = TrimSpace m;
          withEmoji = (if doAddEmoji then addGitmojiToCommitMessage trimmed else trimmed)
      in case (if template \<noteq> [] then processTemplate template withEmoji w
               else (Ret withEmoji, w)) of
           (Exit st, w1) \<Rightarrow> (Exit st, w1)
         | (Ret msg, w1) \<Rightarrow>
             (case postProcess doAddEmoji template ms w1 of
                (Exit st, w2) \<Rightarrow> (Exit st, w2)
              | (Ret rest, w2) \<Rightarrow> (Ret (msg # rest), w2)))"

text \<open>
  The function calls itself when the regenerate entry is chosen, as often as the user
  chooses it; \<open>fuel\<close> bounds the number of rounds, and \<open>None\<close> says that it ran out.
\<close>

fun generateListCommits ::
  "nat \<Rightarrow> string \<Rightarrow> flags \<Rightarrow> world \<Rightarrow> (error option result \<times> world) option" where
  "generateListCommits 0 diff fl w = None"
| "generateListCommits (Suc fuel) diff fl w =
     (let numOptions = 5;
          prompt = getPromptForListCommits diff (flagCommitType fl) (flagLanguage fl) numOptions
      in case filterAPI prompt numOptions (flagMaxTokens fl) (flagFilterFee fl) w of
           ((proceed, Some err), w1) \<Rightarrow> Some (Ret (Some err), w1)
         | ((proceed, None), w1) \<Rightarrow>
             if \<not> proceed then Some (Exit 1, w1)
             else
               (case sendMessageOllama prompt (flagModel fl) (flagMaxTokens fl) (flagTopP fl)
                       (flagTemperature fl) (flagRepetitionPenalty fl) w1 of
                  ((text, Some err), w2) \<Rightarrow> Some (Ret (Some err), w2)
                | ((text, None), w2) \<Rightarrow>
                    (case postProcess (flagEmoji fl) (flagTemplate fl) (Split text '';'') w2 of
                       (Exit st, w3) \<Rightarrow> Some (Exit st, w3)
                     | (Ret processed, w3) \<Rightarrow>
                         let msgs = processed @ [regenerateMsg]
                         in case scanChoice (emit (Print (Menu msgs)) w3) of
                              (choice, w4) \<Rightarrow>
                                if choice < 1 \<or> choice > int (length msgs)
                                then Some (Exit 1, emit (Print InvalidChoice) w4)
                                else
                                  let selectedMsg = msgs ! nat (choice - 1)
                                  in if selectedMsg = regenerateMsg
                                     then generateListCommits fuel diff fl w4
                                     else
                                       (case makeCommit selectedMsg w4 of
                                          (Exit st, w5) \<Rightarrow> Some (Exit st, w5)
                                        | (Ret u, w5) \<Rightarrow> Some (Ret None, w5)))))"

section \<open>The whole run\<close>

definition notARepository :: error where
  "notARepository =
     ''This is not a git repository '' @
     [CHR 0xF0, CHR 0x9F, CHR 0x99, CHR 0x85, CHR 0xE2, CHR 0x80, CHR 0x8D,
      CHR 0xE2, CHR 0x99, CHR 0x82, CHR 0xEF, CHR 0xB8, CHR 0x8F]"

text \<open>The exit status of the process and the world it leaves; \<open>None\<close> when the fuel of the
  list mode ran out.\<close>

definition main :: "nat \<Rightarrow> flags \<Rightarrow> world \<Rightarrow> (int \<times> world) option" where
  "main fuel fl w =
     (case checkGitRepository (emit (Print (Provider (flagModel fl))) w) of
        (inside, w1) \<Rightarrow>
          if \<not> inside then Some (1, emit (LogFatal notARepository) w1)
          else
            (case getGitDiff (flagFilterFiles fl) w1 of
               (Exit st, w2) \<Rightarrow> Some (st, w2)
             | (Ret diff, w2) \<Rightarrow>
                 if diff = [] then Some (1, emit (Print NoChanges) w2)
                 else if flagList fl then
                   (case generateListCommits fuel diff fl w2 of
                      None \<Rightarrow> None
                    | Some (Exit st, w3) \<Rightarrow> Some (st, w3)
                    | Some (Ret (Some err), w3) \<Rightarrow> Some (1, emit (LogFatal err) w3)
                    | Some (Ret None, w3) \<Rightarrow> Some (0, w3))
                 else
                   (case generateSingleCommit diff fl w2 of
                      (Exit st, w3) \<Rightarrow> Some (st, w3)
                    | (Ret (Some err), w3) \<Rightarrow> Some (1, emit (LogFatal err) w3)
                    | (Ret None, w3) \<Rightarrow> Some (0, w3))))"

text \<open>
  One round of the list mode in two halves: up to the menu (lines 189 to 216), where the
  function may return an error (\<open>Ret (Inl err)\<close>) or go on with the entries of the menu
  (\<open>Ret (Inr msgs)\<close>), and from the menu on (lines 218 to 238), where it calls itself
  (\<open>Regenerate\<close>) or is done.
\<close>

datatype round = Regenerate | Finished "error option result"

definition listMenu :: "string \<Rightarrow> flags \<Rightarrow> world \<Rightarrow> (error + string list) result \<times> world" where
  "listMenu diff fl w =
     (let numOptions = 5;
          prompt = getPromptForListCommits diff (flagCommitType fl) (flagLanguage fl) numOptions
      in case filterAPI prompt numOptions (flagMaxTokens fl) (flagFilterFee fl) w of
           ((proceed, Some err), w1) \<Rightarrow> (Ret (Inl err), w1)
         | ((proceed, None), w1) \<Rightarrow>
             if \<not> proceed then (Exit 1, w1)
             else
               (case sendMessageOllama prompt (flagModel fl) (flagMaxTokens fl) (flagTopP fl)
                       (flagTemperature fl) (flagRepetitionPenalty fl) w1 of
                  ((text, Some err), w2) \<Rightarrow> (Ret (Inl err), w2)
                | ((text, None), w2) \<Rightarrow>
                    (case postProcess (flagEmoji fl) (flagTemplate fl) (Split text '';'') w2 of
                       (Exit st, w3) \<Rightarrow> (Exit st, w3)
                     | (Ret processed, w3) \<Rightarrow> (Ret (Inr (processed @ [regenerateMsg])), w3))))"

definition listSelect :: "string list \<Rightarrow> world \<Rightarrow> round \<times> world" where
  "listSelect msgs w =
     (case scanChoice (emit (Print (Menu msgs)) w) of
        (choice, w4) \<Rightarrow>
          if choice < 1 \<or> choice > int (length msgs)
          then (Finished (Exit 1), emit (Print InvalidChoice) w4)
          else
            let selectedMsg = msgs ! nat (choice - 1)
            in if selectedMsg = regenerateMsg then (Regenerate, w4)
               else
                 (case makeCommit selectedMsg w4 of
                    (Exit st, w5) \<Rightarrow> (Finished (Exit st), w5)
                  | (Ret u, w5) \<Rightarrow> (Finished (Ret None), w5)))"

definition listRound :: "string \<Rightarrow> flags \<Rightarrow> world \<Rightarrow> round \<times> world" where
  "listRound diff fl w =
     (case listMenu diff fl w of
        (Exit st, w3) \<Rightarrow> (Finished (Exit st), w3)
      | (Ret (Inl err), w3) \<Rightarrow> (Finished (Ret (Some err)), w3)
      | (Ret (Inr msgs), w3) \<Rightarrow> listSelect msgs w3)"

section \<open>Notions of the specification\<close>

text \<open>
  An alphabetic word token of a text, in the specification's words: a non-empty run \<open>t\<close>
  of letters between \<open>pre\<close> and \<open>post\<close> with no word character directly before it and
  none directly after it. \<open>prevWord\<close> stands for a word character before the whole text.
\<close>

definition alphabeticToken :: "bool \<Rightarrow> string \<Rightarrow> string \<Rightarrow> string \<Rightarrow> bool" where
  "alphabeticToken prevWord pre t post \<longleftrightarrow>
     t \<noteq> [] \<and> (\<forall>c \<in> set t. isLetter c)
     \<and> (if pre = [] then \<not> prevWord else \<not> isWordChar (last pre))
     \<and> (post = [] \<or> \<not> isWordChar (hd post))"


text \<open>Events of the trace that run \<^verbatim>\<open>git diff\<close>, that run \<^verbatim>\<open>git commit\<close>, and that post
  to the inference endpoint.\<close>

fun isGitDiff :: "event \<Rightarrow> bool" where
  "isGitDiff (Exec args) = (take 2 args = [''git'', ''diff''])"
| "isGitDiff e = False"

fun isGitCommit :: "event \<Rightarrow> bool" where
  "isGitCommit (Exec args) = (take 2 args = [''git'', ''commit''])"
| "isGitCommit e = False"

fun isPost :: "event \<Rightarrow> bool" where
  "isPost (Post req) = True"
| "isPost e = False"

text \<open>The events a step added: the trace after it, without the trace before it.\<close>

definition added :: "world \<Rightarrow> world \<Rightarrow> event list" where
  "added w w' = drop (length (trace w)) (trace w')"

text \<open>
  \<open>onlyAdds P w w'\<close>: the world \<open>w'\<close> has the trace of \<open>w\<close> and, after it, only
  events that satisfy \<open>P\<close>; \<open>grows w w'\<close> says the first half alone.
\<close>

definition onlyAdds :: "(event \<Rightarrow> bool) \<Rightarrow> world \<Rightarrow> world \<Rightarrow> bool" where
  "onlyAdds P w w' \<longleftrightarrow> trace w' = trace w @ added w w' \<and> (\<forall>e \<in> set (added w w'). P e)"

definition grows :: "world \<Rightarrow> world \<Rightarrow> bool" where
  "grows w w' \<longleftrightarrow> (\<exists>evs. trace w' = trace w @ evs)"

text \<open>
  What one round of the list mode may do before the menu is answered: no \<^verbatim>\<open>git diff\<close>, no
  \<^verbatim>\<open>git commit\<close>, and requests that carry the given prompt only. What the list mode as a
  whole may do: the same, but for the commit.
\<close>

fun roundEvent :: "string \<Rightarrow> event \<Rightarrow> bool" where
  "roundEvent prompt (Exec args) =
     (take 2 args \<noteq> [''git'', ''diff''] \<and> take 2 args \<noteq> [''git'', ''commit''])"
| "roundEvent prompt (Post req) = (Prompt req = prompt)"
| "roundEvent prompt e = True"

fun listEvent :: "string \<Rightarrow> event \<Rightarrow> bool" where
  "listEvent prompt (Exec args) = (take 2 args \<noteq> [''git'', ''diff''])"
| "listEvent prompt (Post req) = (Prompt req = prompt)"
| "listEvent prompt e = True"

section \<open>An example run\<close>

text \<open>
  The flags at their default values, and a world in which the staged changes differ between
  the first run of \<^verbatim>\<open>git diff\<close> and the later ones, the branch is \<^verbatim>\<open>main\<close>, the model
  answers with three candidates, the user types \<^verbatim>\<open>y\<close> where asked, and picks the fourth
  entry of the first menu and the second entry of the later ones.
\<close>

definition defaultFlags :: flags where
  "defaultFlags =
     \<lparr>flagModel = ''tinydolphin:1.1b-v2.8-q5_K_M'', flagLanguage = ''english'', flagTemplate = [],
      flagEmoji = True, flagCommitType = [], flagList = False, flagForce = False,
      flagFilterFee = False, flagMaxTokens = 2048, flagTopP = 1, flagTemperature = 1,
      flagRepetitionPenalty = 1, flagFilterFiles = []\<rparr>"

definition exampleWorld :: world where
  "exampleWorld =
     \<lparr>gitRevParse = Inr ''true\<newline>'',
      gitDiff = (\<lambda>n. if n = 0 then Inr ''+old'' else Inr ''+new''),
      gitBranch = (\<lambda>n. Inr ''main\<newline>''),
      gitCommit = (\<lambda>n. None),
      ollama = (\<lambda>n req. Inr ''feat: a ; fix: b ;chore: c''),
      stdinLine = (\<lambda>n. ''y\<newline>''),
      stdinChoice = (\<lambda>n. if n = 0 then 4 else 2),
      trace = []\<rparr>"

section \<open>Auxiliary facts\<close>

subsection \<open>One round of the list mode\<close>

lemma generateListCommits_round:
  "generateListCommits (Suc fuel) diff fl w =
     (case listRound diff fl w of
        (Regenerate, w') \<Rightarrow> generateListCommits fuel diff fl w'
      | (Finished r, w') \<Rightarrow> Some (r, w'))"
  by (simp add: listRound_def listMenu_def listSelect_def Let_def
           split: prod.splits result.splits option.splits sum.splits)

subsection \<open>The first alphabetic word\<close>

lemma isLetter_isWordChar: "isLetter c \<Longrightarrow> isWordChar c"
  by (simp add: isWordChar_def)

lemma token_at_front:
  assumes "c # cs = t @ post" and "alphabeticToken pw [] t post"
  shows "\<not> pw \<and> isLetter c \<and> (dropWhile isLetter cs = [] \<or> \<not> isWordChar (hd (dropWhile isLetter cs)))
         \<and> t = c # takeWhile isLetter cs"
proof -
  from assms obtain t' where t: "t = c # t'" and cs: "cs = t' @ post"
    by (cases t) (auto simp: alphabeticToken_def)
  from assms t have l: "\<forall>x \<in> set t'. isLetter x" and c: "isLetter c" and pw: "\<not> pw"
    and post: "post = [] \<or> \<not> isWordChar (hd post)"
    by (auto simp: alphabeticToken_def)
  have post': "post = [] \<or> \<not> isLetter (hd post)"
    using post isLetter_isWordChar by blast
  have d: "dropWhile isLetter cs = post"
    using l post' unfolding cs by (cases post) (auto simp: dropWhile_append3 )
  have tk: "takeWhile isLetter cs = t'"
    using l post' unfolding cs by (cases post) (auto simp: takeWhile_tail)
  show ?thesis using c pw post d tk t by simp
qed

lemma findWord_none:
  "findWord pw s = [] \<Longrightarrow> s = pre @ t @ post \<Longrightarrow> \<not> alphabeticToken pw pre t post"
proof (induction s arbitrary: pw pre)
  case Nil
  then show ?case by (simp add: alphabeticToken_def)
next
  case (Cons c cs)
  show ?case
  proof (cases pre)
    case Nil
    show ?thesis
    proof
      assume tok: "alphabeticToken pw pre t post"
      from Cons.prems(2) Nil have "c # cs = t @ post" by simp
      from token_at_front [OF this, of pw] tok Nil
      have "findWord pw (c # cs) = c # takeWhile isLetter cs" by simp
      with Cons.prems(1) show False by simp
    qed
  next
    case (Cons p pre')
    with Cons.prems have cs: "cs = pre' @ t @ post" and p: "p = c" by auto
    have nf: "findWord (isWordChar c) cs = []"
      using Cons.prems(1) by (auto split: if_splits)
    from Cons.IH [OF nf cs] have "\<not> alphabeticToken (isWordChar c) pre' t post" .
    then show ?thesis using Cons p by (auto simp: alphabeticToken_def split: if_splits)
  qed
qed

lemma findWord_first:
  "findWord pw s \<noteq> [] \<Longrightarrow>
     \<exists>pre post. s = pre @ findWord pw s @ post \<and> alphabeticToken pw pre (findWord pw s) post
       \<and> (\<forall>pre' t' post'. s = pre' @ t' @ post' \<and> alphabeticToken pw pre' t' post' \<longrightarrow> length pre \<le> length pre')"
proof (induction s arbitrary: pw)
  case Nil
  then show ?case by simp
next
  case (Cons c cs)
  let ?hit = "\<not> pw \<and> isLetter c \<and>
         (dropWhile isLetter cs = [] \<or> \<not> isWordChar (hd (dropWhile isLetter cs)))"
  show ?case
  proof (cases ?hit)
    case True
    then have r: "findWord pw (c # cs) = c # takeWhile isLetter cs" by simp
    have "c # cs = [] @ (c # takeWhile isLetter cs) @ dropWhile isLetter cs" by simp
    moreover have "alphabeticToken pw [] (c # takeWhile isLetter cs) (dropWhile isLetter cs)"
      using True by (auto simp: alphabeticToken_def dest: set_takeWhileD)
    ultimately show ?thesis unfolding r by (intro exI [of _ "[]"] exI [of _ "dropWhile isLetter cs"]) simp
  next
    case False
    then have r: "findWord pw (c # cs) = findWord (isWordChar c) cs" by auto
    with Cons.prems have ne: "findWord (isWordChar c) cs \<noteq> []" by simp
    from Cons.IH [OF ne] obtain pre post where
      cs: "cs = pre @ findWord (isWordChar c) cs @ post"
      and tok: "alphabeticToken (isWordChar c) pre (findWord (isWordChar c) cs) post"
      and least: "\<And>pre' t' post'. cs = pre' @ t' @ post' \<Longrightarrow> alphabeticToken (isWordChar c) pre' t' post'
                    \<Longrightarrow> length pre \<le> length pre'"
      by blast
    have a: "c # cs = (c # pre) @ findWord (isWordChar c) cs @ post" using cs by simp
    have b: "alphabeticToken pw (c # pre) (findWord (isWordChar c) cs) post"
      using tok by (auto simp: alphabeticToken_def split: if_splits)
    have c: "length (c # pre) \<le> length pre'" if d: "c # cs = pre' @ t' @ post'" and t: "alphabeticToken pw pre' t' post'"
      for pre' t' post'
    proof (cases pre')
      case Nil
      with d have "c # cs = t' @ post'" by simp
      from token_at_front [OF this, of pw] t Nil False show ?thesis by simp
    next
      case (Cons p pre'')
      with d have cs': "cs = pre'' @ t' @ post'" and p: "p = c" by auto
      have "alphabeticToken (isWordChar c) pre'' t' post'"
        using t Cons p by (auto simp: alphabeticToken_def split: if_splits)
      from least [OF cs' this] show ?thesis using Cons by simp
    qed
    show ?thesis unfolding r using a b c by blast
  qed
qed

subsection \<open>The emoji table\<close>

lemma typeToGitmoji_cases:
  "typeToGitmoji k =
     (if k = ''feat'' then Some [CHR 0xE2, CHR 0x9C, CHR 0xA8]
      else if k = ''fix'' then Some [CHR 0xF0, CHR 0x9F, CHR 0x9A, CHR 0x91]
      else if k = ''docs'' then Some [CHR 0xF0, CHR 0x9F, CHR 0x93, CHR 0x9D]
      else if k = ''style'' then Some [CHR 0xF0, CHR 0x9F, CHR 0x92, CHR 0x84]
      else if k = ''refactor'' then Some [CHR 0xE2, CHR 0x99, CHR 0xBB, CHR 0xEF, CHR 0xB8, CHR 0x8F]
      else if k = ''test'' then Some [CHR 0xE2, CHR 0x9C, CHR 0x85]
      else if k = ''chore'' then Some [CHR 0xF0, CHR 0x9F, CHR 0x94, CHR 0xA7]
      else None)"
  unfolding typeToGitmoji_def by simp

lemma addGitmoji_cases:
  "addGitmojiToCommitMessage m =
     (if FindString m = ''feat'' then [CHR 0xE2, CHR 0x9C, CHR 0xA8] @ '' '' @ m
      else if FindString m = ''fix'' then [CHR 0xF0, CHR 0x9F, CHR 0x9A, CHR 0x91] @ '' '' @ m
      else if FindString m = ''docs'' then [CHR 0xF0, CHR 0x9F, CHR 0x93, CHR 0x9D] @ '' '' @ m
      else if FindString m = ''style'' then [CHR 0xF0, CHR 0x9F, CHR 0x92, CHR 0x84] @ '' '' @ m
      else if FindString m = ''refactor''
        then [CHR 0xE2, CHR 0x99, CHR 0xBB, CHR 0xEF, CHR 0xB8, CHR 0x8F] @ '' '' @ m
      else if FindString m = ''test'' then [CHR 0xE2, CHR 0x9C, CHR 0x85] @ '' '' @ m
      else if FindString m = ''chore'' then [CHR 0xF0, CHR 0x9F, CHR 0x94, CHR 0xA7] @ '' '' @ m
      else m)"
  unfolding addGitmojiToCommitMessage_def Let_def typeToGitmoji_cases by simp

subsection \<open>Prefixes, occurrences and replacement\<close>

lemma HasPrefix_append: "HasPrefix (p @ s) p"
  by (induction p) auto

lemma HasPrefix_iff: "HasPrefix s p \<longleftrightarrow> (\<exists>r. s = p @ r)"
  by (induction s p rule: HasPrefix.induct) auto

lemma Contains_iff: "Contains s sub \<longleftrightarrow> (\<exists>a b. s = a @ sub @ b)"
proof (induction s)
  case Nil
  then show ?case by auto
next
  case (Cons c cs)
  show ?case
  proof
    assume "Contains (c # cs) sub"
    then consider "HasPrefix (c # cs) sub" | "Contains cs sub" by auto
    then show "\<exists>a b. c # cs = a @ sub @ b"
    proof cases
      case 1
      then obtain r where "c # cs = sub @ r" by (auto simp: HasPrefix_iff)
      then have "c # cs = [] @ sub @ r" by simp
      then show ?thesis by blast
    next
      case 2
      with Cons.IH obtain a b where "cs = a @ sub @ b" by blast
      then have "c # cs = (c # a) @ sub @ b" by simp
      then show ?thesis by blast
    qed
  next
    assume "\<exists>a b. c # cs = a @ sub @ b"
    then obtain a b where ab: "c # cs = a @ sub @ b" by blast
    show "Contains (c # cs) sub"
    proof (cases a)
      case Nil
      with ab have "HasPrefix (c # cs) sub" by (auto simp: HasPrefix_iff)
      then show ?thesis by simp
    next
      case (Cons x a')
      with ab have "cs = a' @ sub @ b" by simp
      with Cons.IH have "Contains cs sub" by blast
      then show ?thesis by simp
    qed
  qed
qed

lemma ReplaceAll_Nil: "old \<noteq> [] \<Longrightarrow> ReplaceAll [] old new = []"
  by (simp add: ReplaceAll.simps)

lemma ReplaceAll_hit:
  "old \<noteq> [] \<Longrightarrow> ReplaceAll (old @ b) old new = new @ ReplaceAll b old new"
  by (subst ReplaceAll.simps) (simp add: HasPrefix_append)

lemma ReplaceAll_miss:
  "old \<noteq> [] \<Longrightarrow> \<not> HasPrefix (c # cs) old \<Longrightarrow> ReplaceAll (c # cs) old new = c # ReplaceAll cs old new"
  by (subst ReplaceAll.simps) simp

lemma ReplaceAll_absent:
  "old \<noteq> [] \<Longrightarrow> \<not> Contains s old \<Longrightarrow> ReplaceAll s old new = s"
  by (induction s) (auto simp: ReplaceAll_Nil ReplaceAll_miss)

lemma ReplaceAll_first:
  "old \<noteq> [] \<Longrightarrow> \<forall>k < length a. \<not> HasPrefix (drop k (a @ old @ b)) old \<Longrightarrow>
     ReplaceAll (a @ old @ b) old new = a @ new @ ReplaceAll b old new"
proof (induction a)
  case Nil
  then show ?case by (simp add: ReplaceAll_hit)
next
  case (Cons x a)
  from Cons.prems(2) have "\<not> HasPrefix (drop 0 ((x # a) @ old @ b)) old" by blast
  then have miss: "\<not> HasPrefix (x # a @ old @ b) old" by simp
  have "\<forall>k < length a. \<not> HasPrefix (drop k (a @ old @ b)) old"
  proof (intro allI impI)
    fix k assume "k < length a"
    then have "Suc k < length (x # a)" by simp
    with Cons.prems(2) have "\<not> HasPrefix (drop (Suc k) ((x # a) @ old @ b)) old" by blast
    then show "\<not> HasPrefix (drop k (a @ old @ b)) old" by simp
  qed
  with Cons.IH Cons.prems(1) have "ReplaceAll (a @ old @ b) old new = a @ new @ ReplaceAll b old new"
    by blast
  with miss Cons.prems(1) show ?case by (simp add: ReplaceAll_miss)
qed

lemma Contains_ReplaceAll:
  assumes "old \<noteq> []" and "Contains s old" and "Contains new x"
  shows "Contains (ReplaceAll s old new) x"
  using assms(2)
proof (induction s rule: length_induct)
  case (1 s)
  show ?case
  proof (cases "HasPrefix s old")
    case True
    then obtain r where s: "s = old @ r" by (auto simp: HasPrefix_iff)
    from assms(3) obtain a b where "new = a @ x @ b" by (auto simp: Contains_iff)
    then have "ReplaceAll s old new = a @ x @ (b @ ReplaceAll r old new)"
      using assms(1) s by (simp add: ReplaceAll_hit)
    then show ?thesis unfolding Contains_iff by blast
  next
    case False
    with "1.prems" obtain c cs where s: "s = c # cs" and cs: "Contains cs old"
      using assms(1) by (cases s) auto
    from "1.IH" s cs have "Contains (ReplaceAll cs old new) x" by simp
    then obtain a b where "ReplaceAll cs old new = a @ x @ b" by (auto simp: Contains_iff)
    then have "ReplaceAll s old new = (c # a) @ x @ b"
      using False assms(1) s by (simp add: ReplaceAll_miss)
    then show ?thesis unfolding Contains_iff by blast
  qed
qed

subsection \<open>Lower case\<close>

lemma lowerByte_y: "lowerByte c = CHR ''y'' \<longleftrightarrow> c = CHR ''y'' \<or> c = CHR ''Y''"
  by (auto simp: lowerByte_def split: if_splits)

lemma ToLower_y: "ToLower t = ''y'' \<longleftrightarrow> t = ''y'' \<or> t = ''Y''"
  by (cases t) (auto simp: ToLower_def lowerByte_y)

subsection \<open>The trace and the template step\<close>

lemma trace_emit: "trace (emit e w) = trace w @ [e]"
  by (simp add: emit_def)

lemma runGitBranch_trace:
  "trace (snd (runGitBranch w)) = trace w @ [Exec [''git'', ''branch'', ''--show-current'']]"
  by (simp add: runGitBranch_def trace_emit)

lemma processTemplate_unfold:
  "processTemplate template commitMessage w =
     (if Contains (ReplaceAll template ''{COMMIT_MESSAGE}'' commitMessage) ''{GIT_BRANCH}'' then
        (case gitBranch w 0 of
           Inl err \<Rightarrow> logFatal err (snd (runGitBranch w))
         | Inr output \<Rightarrow>
             (Ret (ReplaceAll (ReplaceAll template ''{COMMIT_MESSAGE}'' commitMessage)
                     ''{GIT_BRANCH}'' (TrimSpace output)),
              snd (runGitBranch w)))
      else (Ret (ReplaceAll template ''{COMMIT_MESSAGE}'' commitMessage), w))"
  by (simp add: processTemplate_def Let_def runGitBranch_def split: sum.splits)

lemma ReplaceAll_once:
  assumes "old \<noteq> []" and "s = a @ old @ b"
    and "\<forall>k < length a. \<not> HasPrefix (drop k s) old" and "\<not> Contains b old"
  shows "ReplaceAll s old new = a @ new @ b"
  using ReplaceAll_first [of old a b new] ReplaceAll_absent [of old b new] assms by simp

subsection \<open>The cost filter\<close>

lemma filterAPI_large:
  "int (length (Fields prompt)) > maxTokens \<Longrightarrow>
     filterAPI prompt n maxTokens ff w = ((False, None), emit (Print (TooLarge maxTokens)) w)"
  by (simp add: filterAPI_def Let_def)

lemma filterAPI_off:
  "\<not> int (length (Fields prompt)) > maxTokens \<Longrightarrow>
     filterAPI prompt n maxTokens False w = ((True, None), w)"
  by (simp add: filterAPI_def Let_def)

lemma filterAPI_on:
  "\<not> int (length (Fields prompt)) > maxTokens \<Longrightarrow>
     filterAPI prompt n maxTokens True w =
       ((TrimSpace (stdinLine w 0) = ''y'' \<or> TrimSpace (stdinLine w 0) = ''Y'', None),
        snd (readString (emit (Print (Fee (estimatedFee (length (Fields prompt)) n))) w)))"
  by (simp add: filterAPI_def Let_def readString_def emit_def ToLower_y)

lemma readString_trace: "trace (snd (readString w)) = trace w"
  by (simp add: readString_def)

lemma scanChoice_trace: "trace (snd (scanChoice w)) = trace w"
  by (simp add: scanChoice_def)

lemma filterAPI_added:
  "added w (snd (filterAPI prompt n maxTokens ff w)) =
     (if int (length (Fields prompt)) > maxTokens then [Print (TooLarge maxTokens)]
      else if ff then [Print (Fee (estimatedFee (length (Fields prompt)) n))] else [])"
  by (cases ff) (simp_all add: filterAPI_large filterAPI_off filterAPI_on added_def
        readString_trace trace_emit)

lemma filterAPI_trace:
  "trace (snd (filterAPI prompt n maxTokens ff w)) =
     trace w @ added w (snd (filterAPI prompt n maxTokens ff w))"
  unfolding filterAPI_added
  by (cases ff) (simp_all add: filterAPI_large filterAPI_off filterAPI_on
        readString_trace trace_emit)


lemma runGitDiff_trace: "trace (snd (runGitDiff args w)) = trace w @ [Exec args]"
  by (simp add: runGitDiff_def trace_emit)




subsection \<open>Splitting and joining\<close>

lemma Split_Nil: "Split [] [c] = [[]]"
  by (simp add: Split.simps)

lemma Split_Cons:
  "Split (x # xs) [c] =
     (if x = c then [] # Split xs [c] else (x # hd (Split xs [c])) # tl (Split xs [c]))"
  by (subst Split.simps) (simp add: Let_def)

lemma Split_not_Nil: "Split s [c] \<noteq> []"
  by (induction s) (simp_all add: Split_Nil Split_Cons)

lemma Split_no_sep: "line \<in> set (Split s [c]) \<Longrightarrow> c \<notin> set line"
proof (induction s arbitrary: line)
  case Nil
  then show ?case by (simp add: Split_Nil)
next
  case (Cons x xs)
  obtain f fs where r: "Split xs [c] = f # fs"
    using Split_not_Nil [of xs c] by (cases "Split xs [c]") auto
  from Cons.IH [unfolded r] have "c \<notin> set f" and "\<And>l. l \<in> set fs \<Longrightarrow> c \<notin> set l" by auto
  with Cons.prems show ?case by (auto simp: Split_Cons r split: if_splits)
qed

lemma Split_free: "c \<notin> set s \<Longrightarrow> Split s [c] = [s]"
  by (induction s) (auto simp: Split_Nil Split_Cons)

lemma Split_append: "c \<notin> set x \<Longrightarrow> Split (x @ c # r) [c] = x # Split r [c]"
  by (induction x) (auto simp: Split_Cons)

lemma Split_Join:
  "ls \<noteq> [] \<Longrightarrow> \<forall>l \<in> set ls. c \<notin> set l \<Longrightarrow> Split (Join ls [c]) [c] = ls"
  by (induction ls "[c]" rule: Join.induct) (simp_all add: Split_free Split_append)

lemma Join_Split: "Join (Split s [c]) [c] = s"
proof (induction s)
  case Nil
  then show ?case by (simp add: Split_Nil)
next
  case (Cons x xs)
  obtain f fs where r: "Split xs [c] = f # fs"
    using Split_not_Nil [of xs c] by (cases "Split xs [c]") auto
  with Cons.IH have "Join (f # fs) [c] = xs" by simp
  then show ?case by (cases fs) (auto simp: Split_Cons r)
qed

subsection \<open>The lines of the diff\<close>

lemma diffLines_sound:
  "line \<in> set (diffLines regions) \<Longrightarrow>
     \<not> HasPrefix line ''@@'' \<and> \<not> HasPrefix line ''diff --git''
     \<and> (\<exists>d \<in> set regions. Type d \<noteq> DiffEqual \<and> line \<in> set (Split (Text d) [CHR 0x0A]))"
  by (induction regions) (auto split: if_splits)

lemma diffLines_no_newline: "line \<in> set (diffLines regions) \<Longrightarrow> CHR 0x0A \<notin> set line"
  using diffLines_sound [of line regions] Split_no_sep by blast

lemma joined_lines:
  "line \<in> set (Split (Join (diffLines regions) [CHR 0x0A]) [CHR 0x0A]) \<Longrightarrow>
     (diffLines regions = [] \<and> line = []) \<or> line \<in> set (diffLines regions)"
proof (cases "diffLines regions = []")
  case True
  assume "line \<in> set (Split (Join (diffLines regions) [CHR 0x0A]) [CHR 0x0A])"
  with True show ?thesis by (simp add: Split_Nil)
next
  case False
  assume a: "line \<in> set (Split (Join (diffLines regions) [CHR 0x0A]) [CHR 0x0A])"
  have "Split (Join (diffLines regions) [CHR 0x0A]) [CHR 0x0A] = diffLines regions"
    using False diffLines_no_newline by (intro Split_Join) blast+
  with a show ?thesis by simp
qed

lemma getGitDiff_output:
  "gitDiff w 0 = Inr output \<Longrightarrow> fst (getGitDiff ff w) = Ret (filterOutput output)"
  by (simp add: getGitDiff_def runGitDiff_def)

subsection \<open>Steps that only add events\<close>

lemma onlyAdds_iff:
  "onlyAdds P w w' \<longleftrightarrow> (\<exists>evs. trace w' = trace w @ evs \<and> (\<forall>e \<in> set evs. P e))"
  by (auto simp: onlyAdds_def added_def)

lemma onlyAdds_refl: "onlyAdds P w w"
  by (simp add: onlyAdds_iff)

lemma onlyAdds_same: "trace w' = trace w \<Longrightarrow> onlyAdds P w w'"
  by (simp add: onlyAdds_iff)

lemma onlyAdds_trans: "onlyAdds P w w1 \<Longrightarrow> onlyAdds P w1 w2 \<Longrightarrow> onlyAdds P w w2"
  unfolding onlyAdds_iff by (metis Un_iff append.assoc set_append)

lemma onlyAdds_mono: "onlyAdds P w w' \<Longrightarrow> (\<And>e. P e \<Longrightarrow> Q e) \<Longrightarrow> onlyAdds Q w w'"
  unfolding onlyAdds_iff by blast

lemma onlyAdds_emit: "P e \<Longrightarrow> onlyAdds P w (emit e w)"
  by (simp add: onlyAdds_iff trace_emit)

lemma onlyAdds_added: "onlyAdds P w w' \<Longrightarrow> e \<in> set (added w w') \<Longrightarrow> P e"
  by (simp add: onlyAdds_def)

lemma roundEvent_listEvent: "roundEvent p e \<Longrightarrow> listEvent p e"
  by (cases e) auto

lemma filterAPI_round: "onlyAdds (roundEvent p) w (snd (filterAPI prompt n maxTokens ff w))"
  unfolding onlyAdds_def using filterAPI_trace [of prompt n maxTokens ff w]
  by (simp add: filterAPI_added)

lemma sendMessageOllama_trace:
  "trace (snd (sendMessageOllama prompt model maxTokens topP temperature repetitionPenalty w)) =
     trace w @ [Post \<lparr>Model = model, Prompt = prompt, Stream = False, MaxTokens = maxTokens,
                      TopP = topP, Temperature = temperature,
                      RepetitionPenalty = repetitionPenalty\<rparr>]"
  by (simp add: sendMessageOllama_def httpPost_def trace_emit Let_def split: sum.splits)

lemma sendMessageOllama_round:
  "onlyAdds (roundEvent prompt) w
     (snd (sendMessageOllama prompt model maxTokens topP temperature repetitionPenalty w))"
  by (simp add: onlyAdds_iff sendMessageOllama_trace)

lemma processTemplate_round:
  "onlyAdds (roundEvent p) w (snd (processTemplate template commitMessage w))"
  by (simp add: onlyAdds_iff processTemplate_unfold runGitBranch_trace logFatal_def trace_emit
        split: sum.splits)

lemma postProcess_no_template:
  "postProcess doAddEmoji [] ms w =
     (Ret (map (\<lambda>m. if doAddEmoji then addGitmojiToCommitMessage (TrimSpace m) else TrimSpace m) ms), w)"
  by (induction ms) (simp_all add: Let_def)

lemma postProcess_round:
  "onlyAdds (roundEvent p) w (snd (postProcess doAddEmoji template ms w))"
proof (cases "template = []")
  case True
  then show ?thesis by (simp add: postProcess_no_template onlyAdds_refl)
next
  case False
  show ?thesis
  proof (induction ms arbitrary: w)
    case Nil
    then show ?case by (simp add: onlyAdds_refl)
  next
    case (Cons m ms)
    let ?m = "if doAddEmoji then addGitmojiToCommitMessage (TrimSpace m) else TrimSpace m"
    obtain r w1 where pt: "processTemplate template ?m w = (r, w1)"
      by (cases "processTemplate template ?m w")
    from processTemplate_round [of p w template ?m] pt have a: "onlyAdds (roundEvent p) w w1" by simp
    obtain r2 w2 where pp: "postProcess doAddEmoji template ms w1 = (r2, w2)"
      by (cases "postProcess doAddEmoji template ms w1")
    from Cons.IH [of w1] pp have b: "onlyAdds (roundEvent p) w1 w2" by simp
    from onlyAdds_trans [OF a b] a False pt pp show ?case
      by (simp add: Let_def split: result.splits)
  qed
qed


lemma makeCommit_trace:
  "trace (snd (makeCommit m w)) =
     trace w @ [Print Committing, Exec [''git'', ''commit'', ''-m'', m]]
       @ (case gitCommit w 0 of Some err \<Rightarrow> [LogFatal err] | None \<Rightarrow> [Print Successful])"
  by (simp add: makeCommit_def runGitCommit_def emit_def logFatal_def split: option.splits)

lemma listMenu_round:
  "onlyAdds (roundEvent (getPromptForListCommits diff (flagCommitType fl) (flagLanguage fl) 5)) w
     (snd (listMenu diff fl w))"
proof -
  let ?p = "getPromptForListCommits diff (flagCommitType fl) (flagLanguage fl) 5"
  obtain pr er w1 where f: "filterAPI ?p 5 (flagMaxTokens fl) (flagFilterFee fl) w = ((pr, er), w1)"
    by (metis prod.collapse)
  obtain tx es w2 where s: "sendMessageOllama ?p (flagModel fl) (flagMaxTokens fl) (flagTopP fl)
      (flagTemperature fl) (flagRepetitionPenalty fl) w1 = ((tx, es), w2)"
    by (metis prod.collapse)
  obtain r w3 where pp: "postProcess (flagEmoji fl) (flagTemplate fl) (Split tx '';'') w2 = (r, w3)"
    by (metis prod.collapse)
  have "onlyAdds (roundEvent ?p) w (snd (filterAPI ?p 5 (flagMaxTokens fl) (flagFilterFee fl) w))"
    by (rule filterAPI_round)
  then have a: "onlyAdds (roundEvent ?p) w w1" unfolding f by simp
  have "onlyAdds (roundEvent ?p) w1 (snd (sendMessageOllama ?p (flagModel fl) (flagMaxTokens fl)
      (flagTopP fl) (flagTemperature fl) (flagRepetitionPenalty fl) w1))"
    by (rule sendMessageOllama_round)
  then have b: "onlyAdds (roundEvent ?p) w1 w2" unfolding s by simp
  have "onlyAdds (roundEvent ?p) w2 (snd (postProcess (flagEmoji fl) (flagTemplate fl) (Split tx '';'') w2))"
    by (rule postProcess_round)
  then have c: "onlyAdds (roundEvent ?p) w2 w3" unfolding pp by simp
  note ab = onlyAdds_trans [OF a b]
  note abc = onlyAdds_trans [OF ab c]
  show ?thesis
    unfolding listMenu_def Let_def f
    using a ab abc s pp by (simp split: option.splits result.splits)
qed

subsection \<open>The menu of the list mode\<close>

lemma listSelect_regenerate:
  assumes "1 \<le> stdinChoice w 0" and "stdinChoice w 0 \<le> int (length msgs)"
    and "msgs ! nat (stdinChoice w 0 - 1) = regenerateMsg"
  shows "listSelect msgs w = (Regenerate, snd (scanChoice (emit (Print (Menu msgs)) w)))"
    and "added w (snd (listSelect msgs w)) = [Print (Menu msgs)]"
    and "trace (snd (listSelect msgs w)) = trace w @ [Print (Menu msgs)]"
  using assms by (simp_all add: listSelect_def scanChoice_def emit_def added_def Let_def)

lemma listSelect_invalid:
  assumes "stdinChoice w 0 < 1 \<or> stdinChoice w 0 > int (length msgs)"
  shows "fst (listSelect msgs w) = Finished (Exit 1)"
    and "trace (snd (listSelect msgs w)) = trace w @ [Print (Menu msgs), Print InvalidChoice]"
  using assms by (auto simp: listSelect_def scanChoice_def emit_def Let_def)

lemma listSelect_commit:
  assumes "1 \<le> stdinChoice w 0" and "stdinChoice w 0 \<le> int (length msgs)"
    and "msgs ! nat (stdinChoice w 0 - 1) \<noteq> regenerateMsg"
  shows "fst (listSelect msgs w) \<noteq> Regenerate"
    and "trace (snd (listSelect msgs w)) =
           trace w @ [Print (Menu msgs), Print Committing,
                      Exec [''git'', ''commit'', ''-m'', msgs ! nat (stdinChoice w 0 - 1)]]
             @ (case gitCommit w 0 of Some err \<Rightarrow> [LogFatal err] | None \<Rightarrow> [Print Successful])"
proof -
  define w4 where "w4 = snd (scanChoice (emit (Print (Menu msgs)) w))"
  let ?m = "msgs ! nat (stdinChoice w 0 - 1)"
  have sc: "scanChoice (emit (Print (Menu msgs)) w) = (stdinChoice w 0, w4)"
    by (simp add: w4_def scanChoice_def emit_def)
  have t4: "trace w4 = trace w @ [Print (Menu msgs)]"
    by (simp add: w4_def scanChoice_def emit_def)
  have g4: "gitCommit w4 0 = gitCommit w 0"
    by (simp add: w4_def scanChoice_def emit_def)
  obtain r w5 where mc: "makeCommit ?m w4 = (r, w5)" by (cases "makeCommit ?m w4")
  have t5: "trace w5 = trace w4 @ [Print Committing, Exec [''git'', ''commit'', ''-m'', ?m]]
       @ (case gitCommit w4 0 of Some err \<Rightarrow> [LogFatal err] | None \<Rightarrow> [Print Successful])"
    using makeCommit_trace [of ?m w4] mc by simp
  have ls: "listSelect msgs w = (case r of Exit st \<Rightarrow> (Finished (Exit st), w5) | Ret u \<Rightarrow> (Finished (Ret None), w5))"
    unfolding listSelect_def sc using assms mc by (simp add: Let_def)
  show "fst (listSelect msgs w) \<noteq> Regenerate" unfolding ls by (cases r) simp_all
  have "snd (listSelect msgs w) = w5" unfolding ls by (cases r) simp_all
  then show "trace (snd (listSelect msgs w)) =
           trace w @ [Print (Menu msgs), Print Committing, Exec [''git'', ''commit'', ''-m'', ?m]]
             @ (case gitCommit w 0 of Some err \<Rightarrow> [LogFatal err] | None \<Rightarrow> [Print Successful])"
    using t5 t4 g4 by simp
qed


lemma listSelect_commit_only:
  assumes "e \<in> set (added w (snd (listSelect msgs w)))" and "isGitCommit e"
  shows "1 \<le> stdinChoice w 0 \<and> stdinChoice w 0 \<le> int (length msgs)
     \<and> msgs ! nat (stdinChoice w 0 - 1) \<noteq> regenerateMsg
     \<and> e = Exec [''git'', ''commit'', ''-m'', msgs ! nat (stdinChoice w 0 - 1)]"
proof (cases "stdinChoice w 0 < 1 \<or> stdinChoice w 0 > int (length msgs)")
  case True
  from listSelect_invalid(2) [OF True] assms show ?thesis by (auto simp: added_def)
next
  case False
  then have v: "1 \<le> stdinChoice w 0" "stdinChoice w 0 \<le> int (length msgs)" by auto
  show ?thesis
  proof (cases "msgs ! nat (stdinChoice w 0 - 1) = regenerateMsg")
    case True
    from listSelect_regenerate(2) [OF v True] assms show ?thesis by auto
  next
    case False
    from listSelect_commit(2) [OF v False] assms v False show ?thesis
      by (auto simp: added_def split: option.splits)
  qed
qed

lemma listSelect_list: "onlyAdds (listEvent p) w (snd (listSelect msgs w))"
proof (cases "stdinChoice w 0 < 1 \<or> stdinChoice w 0 > int (length msgs)")
  case True
  from listSelect_invalid(2) [OF True] show ?thesis by (simp add: onlyAdds_iff)
next
  case False
  then have v: "1 \<le> stdinChoice w 0" "stdinChoice w 0 \<le> int (length msgs)" by auto
  show ?thesis
  proof (cases "msgs ! nat (stdinChoice w 0 - 1) = regenerateMsg")
    case True
    from listSelect_regenerate(3) [OF v True] show ?thesis by (simp add: onlyAdds_iff)
  next
    case False
    from listSelect_commit(2) [OF v False] show ?thesis
      by (simp add: onlyAdds_iff split: option.splits)
  qed
qed

lemma listRound_cases:
  obtains st where "fst (listMenu diff fl w) = Exit st"
      and "listRound diff fl w = (Finished (Exit st), snd (listMenu diff fl w))"
  | err where "fst (listMenu diff fl w) = Ret (Inl err)"
      and "listRound diff fl w = (Finished (Ret (Some err)), snd (listMenu diff fl w))"
  | msgs where "fst (listMenu diff fl w) = Ret (Inr msgs)"
      and "listRound diff fl w = listSelect msgs (snd (listMenu diff fl w))"
proof -
  obtain r w3 where m: "listMenu diff fl w = (r, w3)" by (cases "listMenu diff fl w")
  show ?thesis
  proof (cases r)
    case (Exit st)
    with m that(1) [of st] show ?thesis by (simp add: listRound_def)
  next
    case (Ret x)
    show ?thesis
    proof (cases x)
      case (Inl err)
      with Ret m that(2) [of err] show ?thesis by (simp add: listRound_def)
    next
      case (Inr msgs)
      with Ret m that(3) [of msgs] show ?thesis by (simp add: listRound_def)
    qed
  qed
qed

lemma listRound_list:
  "onlyAdds (listEvent (getPromptForListCommits diff (flagCommitType fl) (flagLanguage fl) 5)) w
     (snd (listRound diff fl w))"
proof -
  let ?p = "getPromptForListCommits diff (flagCommitType fl) (flagLanguage fl) 5"
  have m: "onlyAdds (listEvent ?p) w (snd (listMenu diff fl w))"
    using listMenu_round [of diff fl w] roundEvent_listEvent by (rule onlyAdds_mono)
  show ?thesis
  proof (cases rule: listRound_cases [of diff fl w])
    case (1 st)
    with m show ?thesis by simp
  next
    case (2 err)
    with m show ?thesis by simp
  next
    case (3 msgs)
    from onlyAdds_trans [OF m listSelect_list [of ?p "snd (listMenu diff fl w)" msgs]] 3
    show ?thesis by simp
  qed
qed

lemma generateListCommits_list:
  "generateListCommits fuel diff fl w = Some (r, w') \<Longrightarrow>
     onlyAdds (listEvent (getPromptForListCommits diff (flagCommitType fl) (flagLanguage fl) 5)) w w'"
proof (induction fuel arbitrary: w)
  case 0
  then show ?case by simp
next
  case (Suc fuel)
  obtain rd w1 where lr: "listRound diff fl w = (rd, w1)" by (cases "listRound diff fl w")
  from listRound_list [of diff fl w] lr
  have a: "onlyAdds (listEvent (getPromptForListCommits diff (flagCommitType fl) (flagLanguage fl) 5)) w w1"
    by simp
  show ?case
  proof (cases rd)
    case Regenerate
    with Suc.prems lr have "generateListCommits fuel diff fl w1 = Some (r, w')"
      unfolding generateListCommits_round by simp
    from onlyAdds_trans [OF a Suc.IH [OF this]] show ?thesis .
  next
    case (Finished x)
    with Suc.prems lr have "w' = w1" unfolding generateListCommits_round by simp
    with a show ?thesis by simp
  qed
qed

subsection \<open>Rejected prompts\<close>


lemma getGitDiff_trace:
  "trace (snd (getGitDiff ff w)) =
     trace w @ Exec ([''git'', ''diff'', ''--staged'', ''--no-color'', ''--no-prefix'']
                       @ (if ff \<noteq> [] then [ff] else []))
       # (case gitDiff w 0 of Inl err \<Rightarrow> [LogFatal err] | Inr out \<Rightarrow> [])"
  by (simp add: getGitDiff_def runGitDiff_def trace_emit logFatal_def split: sum.splits)


lemma added_trans:
  assumes "onlyAdds P w w1" and "onlyAdds Q w1 w2"
  shows "added w w2 = added w w1 @ added w1 w2"
proof -
  from assms obtain evs1 evs2 where "trace w1 = trace w @ evs1" and "trace w2 = trace w1 @ evs2"
    unfolding onlyAdds_iff by blast
  then show ?thesis by (simp add: added_def)
qed


subsection \<open>The single mode\<close>

lemma filterAPI_grows: "filterAPI prompt n maxTokens ff w = (r, w') \<Longrightarrow> \<exists>evs. trace w' = trace w @ evs"
  using filterAPI_trace [of prompt n maxTokens ff w] by auto

lemma sendMessageOllama_grows:
  "sendMessageOllama prompt model maxTokens topP temperature repetitionPenalty w = (r, w')
     \<Longrightarrow> \<exists>evs. trace w' = trace w @ evs"
  using sendMessageOllama_trace [of prompt model maxTokens topP temperature repetitionPenalty w] by auto

lemma processTemplate_grows:
  "processTemplate template commitMessage w = (r, w') \<Longrightarrow> \<exists>evs. trace w' = trace w @ evs"
  using processTemplate_round [of "[]" w template commitMessage] by (auto simp: onlyAdds_iff)

lemma getGitDiff_grows:
  "getGitDiff ff w = (r, w') \<Longrightarrow>
     \<exists>evs. trace w' = trace w @ Exec ([''git'', ''diff'', ''--staged'', ''--no-color'', ''--no-prefix'']
                       @ (if ff \<noteq> [] then [ff] else [])) # evs"
  using getGitDiff_trace [of ff w] by auto

lemma grows_refl: "grows w w"
  by (simp add: grows_def)

lemma grows_trans: "grows w w1 \<Longrightarrow> grows w1 w2 \<Longrightarrow> grows w w2"
  by (auto simp: grows_def)

lemma grows_emit: "grows w (emit e w)"
  by (simp add: grows_def trace_emit)

lemma makeCommit_grows: "grows w (snd (makeCommit m w))"
  by (simp add: grows_def makeCommit_trace)

lemma confirm_grows:
  "grows w5 (snd (if force then
                     (case makeCommit msg w5 of
                        (Exit st, w6) \<Rightarrow> (Exit st, w6)
                      | (Ret u, w6) \<Rightarrow> (Ret None, w6))
                   else
                     (case readString (emit (Print AskContinue) w5) of
                        (answer, w6) \<Rightarrow>
                          if ToLower (TrimSpace answer) \<noteq> ''y''
                          then (Exit 1, emit (Print Aborted) w6)
                          else
                            (case makeCommit msg w6 of
                               (Exit st, w7) \<Rightarrow> (Exit st, w7)
                             | (Ret u, w7) \<Rightarrow> (Ret None, w7)))))"
proof (cases force)
  case True
  obtain r w6 where mc: "makeCommit msg w5 = (r, w6)" by (cases "makeCommit msg w5")
  from makeCommit_grows [of w5 msg] mc have "grows w5 w6" by simp
  with True mc show ?thesis by (cases r) simp_all
next
  case False
  define w6 where "w6 = snd (readString (emit (Print AskContinue) w5))"
  have rs: "readString (emit (Print AskContinue) w5) = (stdinLine w5 0, w6)"
    by (simp add: w6_def readString_def emit_def)
  have g6: "grows w5 w6"
    by (simp add: w6_def grows_def readString_trace trace_emit)
  show ?thesis
  proof (cases "ToLower (TrimSpace (stdinLine w5 0)) \<noteq> ''y''")
    case True
    from grows_trans [OF g6 grows_emit [of w6 "Print Aborted"]] True False rs show ?thesis by simp
  next
    case no: False
    obtain r w7 where mc: "makeCommit msg w6 = (r, w7)" by (cases "makeCommit msg w6")
    from makeCommit_grows [of w6 msg] mc have "grows w6 w7" by simp
    from grows_trans [OF g6 this] no False rs mc show ?thesis by (cases r) simp_all
  qed
qed

lemma generateSingleCommit_runs_diff:
  "\<exists>evs. trace (snd (generateSingleCommit diff fl w)) =
     trace w @ Exec ([''git'', ''diff'', ''--staged'', ''--no-color'', ''--no-prefix'']
                       @ (if flagFilterFiles fl \<noteq> [] then [flagFilterFiles fl] else [])) # evs"
proof -
  obtain r1 w1 where g: "getGitDiff (flagFilterFiles fl) w = (r1, w1)"
    by (cases "getGitDiff (flagFilterFiles fl) w")
  from getGitDiff_grows [OF g] obtain evs1 where
    t1: "trace w1 = trace w @ Exec ([''git'', ''diff'', ''--staged'', ''--no-color'', ''--no-prefix'']
                       @ (if flagFilterFiles fl \<noteq> [] then [flagFilterFiles fl] else [])) # evs1"
    by blast
  have "grows w1 (snd (generateSingleCommit diff fl w))"
  proof (cases r1)
    case (Exit st)
    with g show ?thesis by (simp add: generateSingleCommit_def grows_refl)
  next
    case (Ret d)
    show ?thesis
    proof (cases "d = []")
      case True
      with g Ret show ?thesis by (simp add: generateSingleCommit_def grows_emit)
    next
      case False
      let ?p = "getPromptForSingleCommit d (flagCommitType fl) (flagLanguage fl)"
      obtain pr er w2 where f: "filterAPI ?p 1 (flagMaxTokens fl) (flagFilterFee fl) w1 = ((pr, er), w2)"
        by (metis prod.collapse)
      from filterAPI_grows [OF f] have g2: "grows w1 w2" by (simp add: grows_def)
      obtain tx es w3 where s: "sendMessageOllama ?p (flagModel fl) (flagMaxTokens fl) (flagTopP fl)
          (flagTemperature fl) (flagRepetitionPenalty fl) w2 = ((tx, es), w3)"
        by (metis prod.collapse)
      from sendMessageOllama_grows [OF s] have "grows w2 w3" by (simp add: grows_def)
      with g2 have g3: "grows w1 w3" by (rule grows_trans)
      let ?m = "if flagEmoji fl then addGitmojiToCommitMessage tx else tx"
      obtain r4 w4 where pt: "(if flagTemplate fl \<noteq> [] then processTemplate (flagTemplate fl) ?m w3
                                else (Ret ?m, w3)) = (r4, w4)"
        by (metis prod.collapse)
      have "grows w3 w4"
      proof (cases "flagTemplate fl \<noteq> []")
        case True
        with pt have "processTemplate (flagTemplate fl) ?m w3 = (r4, w4)" by simp
        from processTemplate_grows [OF this] show ?thesis by (simp add: grows_def)
      next
        case False
        with pt show ?thesis by (simp add: grows_refl)
      qed
      with g3 have g4: "grows w1 w4" by (rule grows_trans)
      show ?thesis
      proof (cases "er = None \<and> pr \<and> es = None")
        case False
        then consider err where "er = Some err" | "er = None" "\<not> pr"
          | err where "er = None" "pr" "es = Some err"
          by (cases er; cases es) auto
        then show ?thesis
        proof cases
          case 1
          with g Ret \<open>d \<noteq> []\<close> f g2 show ?thesis
            by (simp add: generateSingleCommit_def Let_def)
        next
          case 2
          with g Ret \<open>d \<noteq> []\<close> f g2 show ?thesis
            by (simp add: generateSingleCommit_def Let_def)
        next
          case 3
          with g Ret \<open>d \<noteq> []\<close> f s g3 show ?thesis
            by (simp add: generateSingleCommit_def Let_def)
        qed
      next
        case True
        show ?thesis
        proof (cases r4)
          case (Exit st)
          with g Ret \<open>d \<noteq> []\<close> f s True pt g4 show ?thesis
            by (simp add: generateSingleCommit_def Let_def)
        next
          case (Ret fm)
          let ?w5 = "emit (Print (Proposed (flagTemplate fl \<noteq> []) fm)) w4"
          have "grows w4 ?w5" by (rule grows_emit)
          with g4 have g5: "grows w1 ?w5" by (rule grows_trans)
          from grows_trans [OF g5 confirm_grows [of ?w5 "flagForce fl" fm]]
          show ?thesis
            using g \<open>r1 = Ret d\<close> \<open>d \<noteq> []\<close> f s True pt Ret
            by (simp add: generateSingleCommit_def Let_def)
        qed
      qed
    qed
  qed
  with t1 show ?thesis by (auto simp: grows_def)
qed

subsection \<open>Word counts and the example run\<close>

lemma fieldsFrom_length: "length (fieldsFrom cur s) \<le> length s + (if cur = [] then 0 else 1)"
proof (induction cur s rule: fieldsFrom.induct)
  case (1 cur s)
  show ?case
  proof (cases "s = []")
    case True
    then show ?thesis by (subst fieldsFrom.simps) simp
  next
    case False
    show ?thesis
    proof (cases "spaceAtStart s = 0")
      case True
      from "1.IH"(1) [OF False True] False have "length (fieldsFrom (hd s # cur) (tl s)) \<le> length s"
        by (cases s) auto
      with False True show ?thesis by (subst fieldsFrom.simps) simp
    next
      case sp: False
      from "1.IH"(2) [OF False sp]
      have "length (fieldsFrom [] (drop (spaceAtStart s) s)) \<le> length s - spaceAtStart s" by simp
      with False sp show ?thesis by (subst fieldsFrom.simps) auto
    qed
  qed
qed

lemma Fields_length: "length (Fields s) \<le> length s"
  using fieldsFrom_length [of "[]" s] by (simp add: Fields_def)

lemma short_prompt: "int (length p) \<le> maxTokens \<Longrightarrow> \<not> int (length (Fields p)) > maxTokens"
proof -
  assume "int (length p) \<le> maxTokens"
  moreover have "int (length (Fields p)) \<le> int (length p)"
    using Fields_length [of p] by simp
  ultimately show ?thesis by linarith
qed

lemma listMenu_plain:
  assumes "\<not> int (length (Fields (getPromptForListCommits diff (flagCommitType fl) (flagLanguage fl) 5)))
             > flagMaxTokens fl"
    and "\<not> flagFilterFee fl" and "flagTemplate fl = []"
    and "ollama w 0 \<lparr>Model = flagModel fl,
            Prompt = getPromptForListCommits diff (flagCommitType fl) (flagLanguage fl) 5,
            Stream = False, MaxTokens = flagMaxTokens fl, TopP = flagTopP fl,
            Temperature = flagTemperature fl,
            RepetitionPenalty = flagRepetitionPenalty fl\<rparr> = Inr reply"
  shows "fst (listMenu diff fl w) =
           Ret (Inr (map (\<lambda>m. if flagEmoji fl then addGitmojiToCommitMessage (TrimSpace m)
                               else TrimSpace m) (Split reply '';'') @ [regenerateMsg]))"
    and "stdinChoice (snd (listMenu diff fl w)) = stdinChoice w"
    and "gitCommit (snd (listMenu diff fl w)) = gitCommit w"
  using assms
  by (simp_all add: listMenu_def Let_def filterAPI_off sendMessageOllama_def httpPost_def
        postProcess_no_template emit_def)

lemma list_prompt_short:
  "\<not> int (length (Fields (getPromptForListCommits ''+old'' [] ''english'' 5))) > 2048"
proof -
  have "Sprint 5 = ''5''" by code_simp
  then have "int (length (getPromptForListCommits ''+old'' [] ''english'' 5)) \<le> 2048"
    by (simp add: getPromptForListCommits_def)
  then show ?thesis by (rule short_prompt)
qed

lemma single_prompt_short:
  "length d \<le> 100 \<Longrightarrow> \<not> int (length (Fields (getPromptForSingleCommit d [] ''english''))) > 2048"
  by (rule short_prompt) (simp add: getPromptForSingleCommit_def)

lemma listRound_select:
  "fst (listMenu diff fl w) = Ret (Inr msgs) \<Longrightarrow>
     listRound diff fl w = listSelect msgs (snd (listMenu diff fl w))"
  by (cases "listMenu diff fl w") (simp add: listRound_def)

lemma listRound_commit:
  assumes "fst (listMenu diff fl w) = Ret (Inr msgs)"
    and "1 \<le> stdinChoice (snd (listMenu diff fl w)) 0"
    and "stdinChoice (snd (listMenu diff fl w)) 0 \<le> int (length msgs)"
    and "msgs ! nat (stdinChoice (snd (listMenu diff fl w)) 0 - 1) \<noteq> regenerateMsg"
  shows "Exec [''git'', ''commit'', ''-m'', msgs ! nat (stdinChoice (snd (listMenu diff fl w)) 0 - 1)]
           \<in> set (added w (snd (listRound diff fl w)))"
    and "fst (listRound diff fl w) \<noteq> Regenerate"
proof -
  let ?w3 = "snd (listMenu diff fl w)"
  let ?p = "getPromptForListCommits diff (flagCommitType fl) (flagLanguage fl) 5"
  have m: "onlyAdds (roundEvent ?p) w ?w3" by (rule listMenu_round)
  have s: "onlyAdds (listEvent ?p) ?w3 (snd (listSelect msgs ?w3))" by (rule listSelect_list)
  have "Exec [''git'', ''commit'', ''-m'', msgs ! nat (stdinChoice ?w3 0 - 1)]
          \<in> set (added ?w3 (snd (listSelect msgs ?w3)))"
    using listSelect_commit(2) [OF assms(2-4)] by (simp add: added_def)
  then show "Exec [''git'', ''commit'', ''-m'', msgs ! nat (stdinChoice ?w3 0 - 1)]
           \<in> set (added w (snd (listRound diff fl w)))"
    unfolding listRound_select [OF assms(1)] added_trans [OF m s] by simp
  show "fst (listRound diff fl w) \<noteq> Regenerate"
    unfolding listRound_select [OF assms(1)] using listSelect_commit(1) [OF assms(2-4)] .
qed

lemma example_menu:
  "fst (listMenu ''+old'' (defaultFlags\<lparr>flagEmoji := False\<rparr>) (exampleWorld\<lparr>stdinChoice := c\<rparr>))
     = Ret (Inr [''feat: a'', ''fix: b'', ''chore: c'', regenerateMsg])"
  "stdinChoice (snd (listMenu ''+old'' (defaultFlags\<lparr>flagEmoji := False\<rparr>)
                      (exampleWorld\<lparr>stdinChoice := c\<rparr>))) = c"
proof -
  let ?fl = "defaultFlags\<lparr>flagEmoji := False\<rparr>"
  let ?w = "exampleWorld\<lparr>stdinChoice := c\<rparr>"
  have fl: "flagMaxTokens ?fl = 2048" "\<not> flagFilterFee ?fl" "flagCommitType ?fl = []"
    "flagLanguage ?fl = ''english''" "flagTemplate ?fl = []" "\<not> flagEmoji ?fl"
    by (simp_all add: defaultFlags_def)
  have sh: "\<not> int (length (Fields (getPromptForListCommits ''+old'' (flagCommitType ?fl)
               (flagLanguage ?fl) 5))) > flagMaxTokens ?fl"
    unfolding fl by (rule list_prompt_short)
  have e: "map TrimSpace (Split ''feat: a ; fix: b ;chore: c'' '';'') @ [regenerateMsg]
       = [''feat: a'', ''fix: b'', ''chore: c'', regenerateMsg]" by code_simp
  have o: "ollama ?w 0 \<lparr>Model = flagModel ?fl,
            Prompt = getPromptForListCommits ''+old'' (flagCommitType ?fl) (flagLanguage ?fl) 5,
            Stream = False, MaxTokens = flagMaxTokens ?fl, TopP = flagTopP ?fl,
            Temperature = flagTemperature ?fl,
            RepetitionPenalty = flagRepetitionPenalty ?fl\<rparr> = Inr ''feat: a ; fix: b ;chore: c''"
    by (simp add: exampleWorld_def)
  from listMenu_plain(1) [OF sh fl(2) fl(5) o] fl(6) e
  show "fst (listMenu ''+old'' ?fl ?w) = Ret (Inr [''feat: a'', ''fix: b'', ''chore: c'', regenerateMsg])"
    by simp
  from listMenu_plain(2) [OF sh fl(2) fl(5) o]
  show "stdinChoice (snd (listMenu ''+old'' ?fl ?w)) = c" by simp
qed

section \<open>The claims\<close>

subsection \<open>C1: what the diff collector emits\<close>

text \<open>
  Claim C1. Whatever regions the text diff returns, every line the collector keeps starts
  neither with \<^verbatim>\<open>@@\<close> nor with \<^verbatim>\<open>diff --git\<close> and is a line of a region that is not
  an equal region. The result is these lines joined with line feeds, and cutting the result
  at the line feeds gives no line with one of the two markers (it gives the kept lines
  back when there is one). This holds for the captured output of every run of
  \<^verbatim>\<open>git diff --staged\<close>.
\<close>

theorem diff_collector_lines:
  "(\<forall>line \<in> set (diffLines regions).
       \<not> HasPrefix line ''@@'' \<and> \<not> HasPrefix line ''diff --git''
       \<and> (\<exists>d \<in> set regions. Type d \<noteq> DiffEqual \<and> line \<in> set (Split (Text d) [CHR 0x0A])))
   \<and> (\<forall>line \<in> set (Split (Join (diffLines regions) [CHR 0x0A]) [CHR 0x0A]).
         \<not> HasPrefix line ''@@'' \<and> \<not> HasPrefix line ''diff --git'')
   \<and> (diffLines regions \<noteq> [] \<longrightarrow>
         Split (Join (diffLines regions) [CHR 0x0A]) [CHR 0x0A] = diffLines regions)
   \<and> filterOutput output = Join (diffLines (DiffMain output [] True)) [CHR 0x0A]
   \<and> (\<forall>line \<in> set (Split (filterOutput output) [CHR 0x0A]).
         \<not> HasPrefix line ''@@'' \<and> \<not> HasPrefix line ''diff --git'')
   \<and> (gitDiff w 0 = Inr output \<longrightarrow> fst (getGitDiff filterFiles w) = Ret (filterOutput output))"
proof -
  have a: "\<forall>line \<in> set (diffLines regions).
       \<not> HasPrefix line ''@@'' \<and> \<not> HasPrefix line ''diff --git''
       \<and> (\<exists>d \<in> set regions. Type d \<noteq> DiffEqual \<and> line \<in> set (Split (Text d) [CHR 0x0A]))"
    using diffLines_sound by blast
  have b: "\<forall>line \<in> set (Split (Join (diffLines ds) [CHR 0x0A]) [CHR 0x0A]).
         \<not> HasPrefix line ''@@'' \<and> \<not> HasPrefix line ''diff --git''" for ds
  proof
    fix line assume "line \<in> set (Split (Join (diffLines ds) [CHR 0x0A]) [CHR 0x0A])"
    from joined_lines [OF this] diffLines_sound [of line ds]
    show "\<not> HasPrefix line ''@@'' \<and> \<not> HasPrefix line ''diff --git''" by auto
  qed
  have c: "diffLines regions \<noteq> [] \<longrightarrow>
         Split (Join (diffLines regions) [CHR 0x0A]) [CHR 0x0A] = diffLines regions"
    using diffLines_no_newline by (auto intro!: Split_Join)
  have d: "filterOutput output = Join (diffLines (DiffMain output [] True)) [CHR 0x0A]"
    by (simp add: filterOutput_def)
  have e: "gitDiff w 0 = Inr output \<longrightarrow> fst (getGitDiff filterFiles w) = Ret (filterOutput output)"
    using getGitDiff_output by blast
  have f: "\<forall>line \<in> set (Split (filterOutput output) [CHR 0x0A]).
         \<not> HasPrefix line ''@@'' \<and> \<not> HasPrefix line ''diff --git''"
    unfolding d by (rule b)
  show ?thesis
    by (intro conjI) (rule a, rule b, rule c, rule d, rule f, rule e)
qed

theorem diff_collector_lines_witness:
  "diffLines [\<lparr>Type = DiffEqual, Text = ''same''\<rparr>,
              \<lparr>Type = DiffInsert, Text = ''+a\<newline>@@ -1 +1 @@\<newline>diff --git x y''\<rparr>] = [''+a'']
   \<and> \<not> HasPrefix ''+a'' ''@@'' \<and> \<not> HasPrefix ''+a'' ''diff --git''
   \<and> Split (Join [''+a''] ''\<newline>'') ''\<newline>'' = [''+a'']
   \<and> filterOutput ''diff --git a b\<newline>@@ -1 +1 @@\<newline>+x\<newline>-y'' = ''+x\<newline>-y''
   \<and> filter (\<lambda>line. HasPrefix line ''@@'' \<or> HasPrefix line ''diff --git'')
        (Split ''+x\<newline>-y'' ''\<newline>'') = []
   \<and> fst (getGitDiff [] exampleWorld) = Ret (filterOutput ''+old'')"
proof -
  let ?rs = "[\<lparr>Type = DiffEqual, Text = ''same''\<rparr>,
              \<lparr>Type = DiffInsert, Text = ''+a\<newline>@@ -1 +1 @@\<newline>diff --git x y''\<rparr>]"
  let ?out = "''diff --git a b\<newline>@@ -1 +1 @@\<newline>+x\<newline>-y''"
  have a: "diffLines ?rs = [''+a'']" by code_simp
  have b: "filterOutput ?out = ''+x\<newline>-y''" by code_simp
  have c: "gitDiff exampleWorld 0 = Inr ''+old''" by (simp add: exampleWorld_def)
  note t = diff_collector_lines [of ?rs ?out exampleWorld "[]"]
  note u = diff_collector_lines [of ?rs "''+old''" exampleWorld "[]"]
  from t have "\<forall>line \<in> set (diffLines ?rs). \<not> HasPrefix line ''@@'' \<and> \<not> HasPrefix line ''diff --git''"
    by blast
  then have 1: "\<not> HasPrefix ''+a'' ''@@'' \<and> \<not> HasPrefix ''+a'' ''diff --git''"
    unfolding a by simp
  from t have "diffLines ?rs \<noteq> [] \<longrightarrow> Split (Join (diffLines ?rs) ''\<newline>'') ''\<newline>'' = diffLines ?rs"
    by blast
  then have 2: "Split (Join [''+a''] ''\<newline>'') ''\<newline>'' = [''+a'']" unfolding a by simp
  from t have "\<forall>line \<in> set (Split (filterOutput ?out) ''\<newline>'').
         \<not> HasPrefix line ''@@'' \<and> \<not> HasPrefix line ''diff --git''" by blast
  then have 3: "\<forall>line \<in> set (Split ''+x\<newline>-y'' ''\<newline>'').
         \<not> HasPrefix line ''@@'' \<and> \<not> HasPrefix line ''diff --git''" unfolding b .
  from u c have 4: "fst (getGitDiff [] exampleWorld) = Ret (filterOutput ''+old'')" by blast
  from 3 have 5: "filter (\<lambda>line. HasPrefix line ''@@'' \<or> HasPrefix line ''diff --git'')
        (Split ''+x\<newline>-y'' ''\<newline>'') = []"
    by (simp add: filter_empty_conv)
  from a 1 2 b 5 4 show ?thesis by blast
qed

subsection \<open>C2: the cost filter\<close>



subsection \<open>C3: the single mode collects the diff again\<close>

text \<open>
  Claim C3 says that one run collects the diff once and that every request carries that
  diff. The list mode does so; the single mode does not: \<^verbatim>\<open>generateSingleCommit\<close> never reads
  the diff it is given (its result is the same for any two values of the parameter) and its
  first event is another run of \<^verbatim>\<open>git diff\<close>. In the example run with the default flags
  \<^verbatim>\<open>main\<close> collects \<^verbatim>\<open>+old\<close>, the trace holds two runs of \<^verbatim>\<open>git diff\<close>, and the one
  request of the run carries the prompt built from \<^verbatim>\<open>+new\<close>, the second collection.
\<close>

theorem single_mode_collects_again:
  "generateSingleCommit d1 fl w = generateSingleCommit d2 fl w
   \<and> (\<exists>evs. trace (snd (generateSingleCommit d1 fl w)) =
          trace w @ Exec ([''git'', ''diff'', ''--staged'', ''--no-color'', ''--no-prefix'']
                            @ (if flagFilterFiles fl \<noteq> [] then [flagFilterFiles fl] else [])) # evs)
   \<and> fst (getGitDiff (flagFilterFiles defaultFlags) exampleWorld) = Ret ''+old''
   \<and> map_option (\<lambda>(st, w'). (st, filter isGitDiff (trace w'), filter isPost (trace w')))
        (main 0 defaultFlags exampleWorld)
       = Some (0,
               [Exec [''git'', ''diff'', ''--staged'', ''--no-color'', ''--no-prefix''],
                Exec [''git'', ''diff'', ''--staged'', ''--no-color'', ''--no-prefix'']],
               [Post \<lparr>Model = ''tinydolphin:1.1b-v2.8-q5_K_M'',
                       Prompt = getPromptForSingleCommit ''+new'' [] ''english'',
                       Stream = False, MaxTokens = 2048, TopP = 1, Temperature = 1,
                       RepetitionPenalty = 1\<rparr>])"
proof -
  have a: "generateSingleCommit d1 fl w = generateSingleCommit d2 fl w"
    by (simp add: generateSingleCommit_def)
  have b: "\<exists>evs. trace (snd (generateSingleCommit d1 fl w)) =
          trace w @ Exec ([''git'', ''diff'', ''--staged'', ''--no-color'', ''--no-prefix'']
                            @ (if flagFilterFiles fl \<noteq> [] then [flagFilterFiles fl] else [])) # evs"
    by (rule generateSingleCommit_runs_diff)
  have tv: "TrimSpace ''true\<newline>'' = ''true''" by code_simp
  have ty: "ToLower (TrimSpace ''y\<newline>'') = ''y''" by code_simp
  have fo: "filterOutput ''+old'' = ''+old''" "filterOutput ''+new'' = ''+new''" by code_simp+
  have ps: "\<not> int (length (Fields (getPromptForSingleCommit ''+new'' [] ''english''))) > 2048"
    by (rule single_prompt_short) simp
  have c: "fst (getGitDiff (flagFilterFiles defaultFlags) exampleWorld) = Ret ''+old''"
    by (simp add: getGitDiff_def runGitDiff_def exampleWorld_def defaultFlags_def fo)
  have d: "map_option (\<lambda>(st, w'). (st, filter isGitDiff (trace w'), filter isPost (trace w')))
        (main 0 defaultFlags exampleWorld)
       = Some (0,
               [Exec [''git'', ''diff'', ''--staged'', ''--no-color'', ''--no-prefix''],
                Exec [''git'', ''diff'', ''--staged'', ''--no-color'', ''--no-prefix'']],
               [Post \<lparr>Model = ''tinydolphin:1.1b-v2.8-q5_K_M'',
                       Prompt = getPromptForSingleCommit ''+new'' [] ''english'',
                       Stream = False, MaxTokens = 2048, TopP = 1, Temperature = 1,
                       RepetitionPenalty = 1\<rparr>])"
    by (simp add: main_def checkGitRepository_def runGitRevParse_def getGitDiff_def runGitDiff_def
          generateSingleCommit_def filterAPI_off [OF ps] sendMessageOllama_def httpPost_def
          makeCommit_def runGitCommit_def readString_def emit_def exampleWorld_def defaultFlags_def
          Let_def tv ty fo)
  show ?thesis by (intro conjI) (rule a, rule b, rule c, rule d)
qed

subsection \<open>C4: choosing the regenerate entry\<close>

text \<open>
  Claim C4. When the entry chosen from the menu is the regenerate sentinel, the round ends
  with the function calling itself with the same diff, and the round has run neither
  \<^verbatim>\<open>git commit\<close> nor \<^verbatim>\<open>git diff\<close> and has sent only requests whose prompt is built from
  that diff. A round runs \<^verbatim>\<open>git commit\<close> only when the choice is in range and the chosen
  entry is not the sentinel, and then with the chosen entry as the message. However many
  rounds a list-mode call takes, it never runs \<^verbatim>\<open>git diff\<close> and every request carries the
  prompt of the diff it was given.
\<close>

theorem regenerate_step:
  "(fst (listMenu diff fl w) = Ret (Inr msgs)
    \<and> 1 \<le> stdinChoice (snd (listMenu diff fl w)) 0
    \<and> stdinChoice (snd (listMenu diff fl w)) 0 \<le> int (length msgs)
    \<and> msgs ! nat (stdinChoice (snd (listMenu diff fl w)) 0 - 1) = regenerateMsg
    \<longrightarrow> fst (listRound diff fl w) = Regenerate
        \<and> generateListCommits (Suc fuel) diff fl w
            = generateListCommits fuel diff fl (snd (listRound diff fl w))
        \<and> onlyAdds (roundEvent (getPromptForListCommits diff (flagCommitType fl) (flagLanguage fl) 5))
             w (snd (listRound diff fl w)))
   \<and> (\<forall>e \<in> set (added w (snd (listRound diff fl w))). isGitCommit e \<longrightarrow>
         (\<exists>ms. fst (listMenu diff fl w) = Ret (Inr ms)
            \<and> 1 \<le> stdinChoice (snd (listMenu diff fl w)) 0
            \<and> stdinChoice (snd (listMenu diff fl w)) 0 \<le> int (length ms)
            \<and> ms ! nat (stdinChoice (snd (listMenu diff fl w)) 0 - 1) \<noteq> regenerateMsg
            \<and> e = Exec [''git'', ''commit'', ''-m'',
                         ms ! nat (stdinChoice (snd (listMenu diff fl w)) 0 - 1)]))
   \<and> (\<forall>n r w'. generateListCommits n diff fl w = Some (r, w') \<longrightarrow>
         onlyAdds (listEvent (getPromptForListCommits diff (flagCommitType fl) (flagLanguage fl) 5))
           w w')"
proof -
  let ?p = "getPromptForListCommits diff (flagCommitType fl) (flagLanguage fl) 5"
  let ?w3 = "snd (listMenu diff fl w)"
  have m: "onlyAdds (roundEvent ?p) w ?w3" by (rule listMenu_round)
  have a: "fst (listMenu diff fl w) = Ret (Inr msgs)
    \<and> 1 \<le> stdinChoice ?w3 0 \<and> stdinChoice ?w3 0 \<le> int (length msgs)
    \<and> msgs ! nat (stdinChoice ?w3 0 - 1) = regenerateMsg
    \<longrightarrow> fst (listRound diff fl w) = Regenerate
        \<and> generateListCommits (Suc fuel) diff fl w
            = generateListCommits fuel diff fl (snd (listRound diff fl w))
        \<and> onlyAdds (roundEvent ?p) w (snd (listRound diff fl w))"
  proof
    assume h: "fst (listMenu diff fl w) = Ret (Inr msgs)
      \<and> 1 \<le> stdinChoice ?w3 0 \<and> stdinChoice ?w3 0 \<le> int (length msgs)
      \<and> msgs ! nat (stdinChoice ?w3 0 - 1) = regenerateMsg"
    then have lm: "listMenu diff fl w = (Ret (Inr msgs), ?w3)"
      by (cases "listMenu diff fl w") simp
    have lr: "listRound diff fl w = listSelect msgs ?w3"
      by (subst listRound_def, subst lm) simp
    from h have v: "1 \<le> stdinChoice ?w3 0" "stdinChoice ?w3 0 \<le> int (length msgs)"
      "msgs ! nat (stdinChoice ?w3 0 - 1) = regenerateMsg" by simp_all
    note sel = listSelect_regenerate [OF v]
    have r1: "fst (listRound diff fl w) = Regenerate" unfolding lr sel(1) by simp
    have r2: "generateListCommits (Suc fuel) diff fl w
            = generateListCommits fuel diff fl (snd (listRound diff fl w))"
      unfolding generateListCommits_round lr sel(1) by simp
    have "onlyAdds (roundEvent ?p) ?w3 (snd (listSelect msgs ?w3))"
      using sel(3) by (simp add: onlyAdds_iff)
    from onlyAdds_trans [OF m this]
    have r3: "onlyAdds (roundEvent ?p) w (snd (listRound diff fl w))" unfolding lr .
    from r1 r2 r3 show "fst (listRound diff fl w) = Regenerate
        \<and> generateListCommits (Suc fuel) diff fl w
            = generateListCommits fuel diff fl (snd (listRound diff fl w))
        \<and> onlyAdds (roundEvent ?p) w (snd (listRound diff fl w))"
      by simp
  qed
  have b: "\<forall>e \<in> set (added w (snd (listRound diff fl w))). isGitCommit e \<longrightarrow>
         (\<exists>ms. fst (listMenu diff fl w) = Ret (Inr ms)
            \<and> 1 \<le> stdinChoice ?w3 0 \<and> stdinChoice ?w3 0 \<le> int (length ms)
            \<and> ms ! nat (stdinChoice ?w3 0 - 1) \<noteq> regenerateMsg
            \<and> e = Exec [''git'', ''commit'', ''-m'', ms ! nat (stdinChoice ?w3 0 - 1)])"
  proof (intro ballI impI)
    fix e assume e: "e \<in> set (added w (snd (listRound diff fl w)))" and c: "isGitCommit e"
    have nm: "e \<notin> set (added w ?w3)"
    proof
      assume "e \<in> set (added w ?w3)"
      from onlyAdds_added [OF m this] c show False by (cases e) auto
    qed
    show "\<exists>ms. fst (listMenu diff fl w) = Ret (Inr ms)
            \<and> 1 \<le> stdinChoice ?w3 0 \<and> stdinChoice ?w3 0 \<le> int (length ms)
            \<and> ms ! nat (stdinChoice ?w3 0 - 1) \<noteq> regenerateMsg
            \<and> e = Exec [''git'', ''commit'', ''-m'', ms ! nat (stdinChoice ?w3 0 - 1)]"
    proof (cases rule: listRound_cases [of diff fl w])
      case (1 st)
      with e nm show ?thesis by simp
    next
      case (2 err)
      with e nm show ?thesis by simp
    next
      case (3 ms)
      have s: "onlyAdds (listEvent ?p) ?w3 (snd (listSelect ms ?w3))" by (rule listSelect_list)
      have "added w (snd (listSelect ms ?w3)) = added w ?w3 @ added ?w3 (snd (listSelect ms ?w3))"
        using m s by (rule added_trans)
      with e nm 3 have "e \<in> set (added ?w3 (snd (listSelect ms ?w3)))" by simp
      from listSelect_commit_only [OF this c] 3 show ?thesis by blast
    qed
  qed
  have c: "\<forall>n r w'. generateListCommits n diff fl w = Some (r, w') \<longrightarrow> onlyAdds (listEvent ?p) w w'"
    using generateListCommits_list by blast
  show ?thesis by (intro conjI) (rule a, rule b, rule c)
qed

theorem regenerate_step_witness:
  "fst (listRound ''+old'' (defaultFlags\<lparr>flagEmoji := False\<rparr>)
          (exampleWorld\<lparr>stdinChoice := (\<lambda>n. 4)\<rparr>)) = Regenerate
   \<and> generateListCommits 2 ''+old'' (defaultFlags\<lparr>flagEmoji := False\<rparr>)
        (exampleWorld\<lparr>stdinChoice := (\<lambda>n. 4)\<rparr>)
      = generateListCommits 1 ''+old'' (defaultFlags\<lparr>flagEmoji := False\<rparr>)
          (snd (listRound ''+old'' (defaultFlags\<lparr>flagEmoji := False\<rparr>)
                  (exampleWorld\<lparr>stdinChoice := (\<lambda>n. 4)\<rparr>)))
   \<and> filter (\<lambda>e. isGitCommit e \<or> isGitDiff e)
        (added (exampleWorld\<lparr>stdinChoice := (\<lambda>n. 4)\<rparr>)
           (snd (listRound ''+old'' (defaultFlags\<lparr>flagEmoji := False\<rparr>)
                   (exampleWorld\<lparr>stdinChoice := (\<lambda>n. 4)\<rparr>)))) = []
   \<and> Exec [''git'', ''commit'', ''-m'', ''fix: b'']
        \<in> set (added (exampleWorld\<lparr>stdinChoice := (\<lambda>n. 2)\<rparr>)
                 (snd (listRound ''+old'' (defaultFlags\<lparr>flagEmoji := False\<rparr>)
                         (exampleWorld\<lparr>stdinChoice := (\<lambda>n. 2)\<rparr>))))
   \<and> (\<exists>ms. fst (listMenu ''+old'' (defaultFlags\<lparr>flagEmoji := False\<rparr>)
                  (exampleWorld\<lparr>stdinChoice := (\<lambda>n. 2)\<rparr>)) = Ret (Inr ms)
          \<and> ms ! 1 \<noteq> regenerateMsg \<and> ms ! 1 = ''fix: b'')
   \<and> (\<exists>r w'. generateListCommits 1 ''+old'' (defaultFlags\<lparr>flagEmoji := False\<rparr>)
                 (exampleWorld\<lparr>stdinChoice := (\<lambda>n. 2)\<rparr>) = Some (r, w')
          \<and> filter isGitDiff (added (exampleWorld\<lparr>stdinChoice := (\<lambda>n. 2)\<rparr>) w') = [])"
proof -
  let ?fl = "defaultFlags\<lparr>flagEmoji := False\<rparr>"
  let ?w4 = "exampleWorld\<lparr>stdinChoice := (\<lambda>n. 4)\<rparr>"
  let ?w2 = "exampleWorld\<lparr>stdinChoice := (\<lambda>n. 2)\<rparr>"
  let ?ms = "[''feat: a'', ''fix: b'', ''chore: c'', regenerateMsg]"
  let ?p = "getPromptForListCommits ''+old'' (flagCommitType ?fl) (flagLanguage ?fl) 5"
  have ne: "''fix: b'' \<noteq> regenerateMsg" by (simp add: regenerateMsg_def)
  note m4 = example_menu [of "\<lambda>n. 4"]
  note m2 = example_menu [of "\<lambda>n. 2"]
  have h4: "fst (listMenu ''+old'' ?fl ?w4) = Ret (Inr ?ms)
    \<and> 1 \<le> stdinChoice (snd (listMenu ''+old'' ?fl ?w4)) 0
    \<and> stdinChoice (snd (listMenu ''+old'' ?fl ?w4)) 0 \<le> int (length ?ms)
    \<and> ?ms ! nat (stdinChoice (snd (listMenu ''+old'' ?fl ?w4)) 0 - 1) = regenerateMsg"
    unfolding m4 by simp
  from regenerate_step [of "''+old''" ?fl ?w4 ?ms 1] h4
  have r: "fst (listRound ''+old'' ?fl ?w4) = Regenerate"
    and g: "generateListCommits (Suc 1) ''+old'' ?fl ?w4
            = generateListCommits 1 ''+old'' ?fl (snd (listRound ''+old'' ?fl ?w4))"
    and o: "onlyAdds (roundEvent ?p) ?w4 (snd (listRound ''+old'' ?fl ?w4))"
    by blast+
  have "\<forall>e \<in> set (added ?w4 (snd (listRound ''+old'' ?fl ?w4))). \<not> isGitCommit e \<and> \<not> isGitDiff e"
  proof
    fix e assume "e \<in> set (added ?w4 (snd (listRound ''+old'' ?fl ?w4)))"
    from onlyAdds_added [OF o this] show "\<not> isGitCommit e \<and> \<not> isGitDiff e" by (cases e) auto
  qed
  then have q: "filter (\<lambda>e. isGitCommit e \<or> isGitDiff e)
      (added ?w4 (snd (listRound ''+old'' ?fl ?w4))) = []"
    by (simp add: filter_empty_conv)
  have c2: "1 \<le> stdinChoice (snd (listMenu ''+old'' ?fl ?w2)) 0"
    "stdinChoice (snd (listMenu ''+old'' ?fl ?w2)) 0 \<le> int (length ?ms)"
    "?ms ! nat (stdinChoice (snd (listMenu ''+old'' ?fl ?w2)) 0 - 1) \<noteq> regenerateMsg"
    unfolding m2 using ne by simp_all
  from listRound_commit(1) [OF m2(1) c2]
  have ex: "Exec [''git'', ''commit'', ''-m'', ''fix: b'']
      \<in> set (added ?w2 (snd (listRound ''+old'' ?fl ?w2)))"
    unfolding m2 by simp
  have ic: "isGitCommit (Exec [''git'', ''commit'', ''-m'', ''fix: b''])" by simp
  from regenerate_step [of "''+old''" ?fl ?w2 ?ms 0] ex ic
  have "\<exists>ms. fst (listMenu ''+old'' ?fl ?w2) = Ret (Inr ms)
            \<and> ms ! nat (stdinChoice (snd (listMenu ''+old'' ?fl ?w2)) 0 - 1) \<noteq> regenerateMsg
            \<and> Exec [''git'', ''commit'', ''-m'', ''fix: b'']
                = Exec [''git'', ''commit'', ''-m'', ms ! nat (stdinChoice (snd (listMenu ''+old'' ?fl ?w2)) 0 - 1)]"
    by blast
  then have sel: "\<exists>ms. fst (listMenu ''+old'' ?fl ?w2) = Ret (Inr ms)
          \<and> ms ! 1 \<noteq> regenerateMsg \<and> ms ! 1 = ''fix: b''"
    unfolding m2 by auto
  obtain rd w' where lr: "listRound ''+old'' ?fl ?w2 = (rd, w')"
    by (cases "listRound ''+old'' ?fl ?w2")
  with listRound_commit(2) [OF m2(1) c2] obtain x where "rd = Finished x" by (cases rd) auto
  with lr have run: "generateListCommits 1 ''+old'' ?fl ?w2 = Some (x, w')"
    using generateListCommits_round [of 0 "''+old''" ?fl ?w2] by simp
  with regenerate_step [of "''+old''" ?fl ?w2 ?ms 0]
  have "onlyAdds (listEvent ?p) ?w2 w'" by blast
  then have "\<forall>e \<in> set (added ?w2 w'). \<not> isGitDiff e"
  proof (intro ballI)
    fix e assume "onlyAdds (listEvent ?p) ?w2 w'" and "e \<in> set (added ?w2 w')"
    from onlyAdds_added [OF this] show "\<not> isGitDiff e" by (cases e) auto
  qed
  then have "filter isGitDiff (added ?w2 w') = []" by (simp add: filter_empty_conv)
  with run have fin: "\<exists>r w'. generateListCommits 1 ''+old'' ?fl ?w2 = Some (r, w')
          \<and> filter isGitDiff (added ?w2 w') = []" by blast
  have two: "Suc 1 = 2" by simp
  from r g q ex sel fin show ?thesis unfolding two by blast
qed

subsection \<open>C5: the emoji step\<close>

text \<open>
  Claim C5. The emoji step takes the first alphabetic word token of the message, which is
  what \<^const>\<open>FindString\<close> returns (the empty string when the message has none). When
  that word is one of feat, fix, docs, style, refactor, test and chore, the result is the
  emoji of the word, a space and the message as it was; for any other word, and for a
  message without a word, the result is the message. So \<^verbatim>\<open>feat: add login\<close> gets the
  sparkles in front of it, and \<^verbatim>\<open>unknown: x\<close> stays as it is.
\<close>

theorem emoji_step:
  "addGitmojiToCommitMessage m =
     (if FindString m = ''feat'' then [CHR 0xE2, CHR 0x9C, CHR 0xA8] @ '' '' @ m
      else if FindString m = ''fix'' then [CHR 0xF0, CHR 0x9F, CHR 0x9A, CHR 0x91] @ '' '' @ m
      else if FindString m = ''docs'' then [CHR 0xF0, CHR 0x9F, CHR 0x93, CHR 0x9D] @ '' '' @ m
      else if FindString m = ''style'' then [CHR 0xF0, CHR 0x9F, CHR 0x92, CHR 0x84] @ '' '' @ m
      else if FindString m = ''refactor''
        then [CHR 0xE2, CHR 0x99, CHR 0xBB, CHR 0xEF, CHR 0xB8, CHR 0x8F] @ '' '' @ m
      else if FindString m = ''test'' then [CHR 0xE2, CHR 0x9C, CHR 0x85] @ '' '' @ m
      else if FindString m = ''chore'' then [CHR 0xF0, CHR 0x9F, CHR 0x94, CHR 0xA7] @ '' '' @ m
      else m)
   \<and> (FindString m \<noteq> [] \<longrightarrow>
        (\<exists>pre post. m = pre @ FindString m @ post \<and> alphabeticToken False pre (FindString m) post
           \<and> (\<forall>pre' t' post'. m = pre' @ t' @ post' \<and> alphabeticToken False pre' t' post'
                 \<longrightarrow> length pre \<le> length pre')))
   \<and> (FindString m = [] \<longrightarrow> (\<forall>pre t post. m = pre @ t @ post \<longrightarrow> \<not> alphabeticToken False pre t post))
   \<and> addGitmojiToCommitMessage ''feat: add login'' = [CHR 0xE2, CHR 0x9C, CHR 0xA8] @ '' feat: add login''
   \<and> addGitmojiToCommitMessage ''unknown: x'' = ''unknown: x''"
proof -
  have found: "FindString m \<noteq> [] \<longrightarrow>
        (\<exists>pre post. m = pre @ FindString m @ post \<and> alphabeticToken False pre (FindString m) post
           \<and> (\<forall>pre' t' post'. m = pre' @ t' @ post' \<and> alphabeticToken False pre' t' post'
                 \<longrightarrow> length pre \<le> length pre'))"
    unfolding FindString_def using findWord_first [of False m] by blast
  have none: "FindString m = [] \<longrightarrow>
        (\<forall>pre t post. m = pre @ t @ post \<longrightarrow> \<not> alphabeticToken False pre t post)"
    unfolding FindString_def using findWord_none [of False m] by blast
  have feat: "addGitmojiToCommitMessage ''feat: add login''
                = [CHR 0xE2, CHR 0x9C, CHR 0xA8] @ '' feat: add login''"
    by code_simp
  have unknown: "addGitmojiToCommitMessage ''unknown: x'' = ''unknown: x''"
    by code_simp
  from addGitmoji_cases [of m] found none feat unknown show ?thesis by blast
qed

theorem emoji_step_witness:
  "FindString ''fix: bug'' = ''fix''
   \<and> addGitmojiToCommitMessage ''fix: bug'' = [CHR 0xF0, CHR 0x9F, CHR 0x9A, CHR 0x91] @ '' fix: bug''
   \<and> (\<exists>pre post. ''fix: bug'' = pre @ ''fix'' @ post \<and> alphabeticToken False pre ''fix'' post)
   \<and> FindString ''123 _x'' = []
   \<and> addGitmojiToCommitMessage ''123 _x'' = ''123 _x''
   \<and> \<not> alphabeticToken False ''123 _'' ''x'' []"
proof -
  have f: "FindString ''fix: bug'' = ''fix''" by code_simp
  have g: "FindString ''123 _x'' = []" by code_simp
  have d: "''123 _x'' = ''123 _'' @ ''x'' @ []" by simp
  from emoji_step [of "''fix: bug''"] have
    "addGitmojiToCommitMessage ''fix: bug'' = [CHR 0xF0, CHR 0x9F, CHR 0x9A, CHR 0x91] @ '' fix: bug''"
    and "\<exists>pre post. ''fix: bug'' = pre @ ''fix'' @ post \<and> alphabeticToken False pre ''fix'' post"
    unfolding f by (simp, blast)
  moreover from emoji_step [of "''123 _x''"] have
    "addGitmojiToCommitMessage ''123 _x'' = ''123 _x''"
    and "\<forall>pre t post. ''123 _x'' = pre @ t @ post \<longrightarrow> \<not> alphabeticToken False pre t post"
    unfolding g by (simp, blast)
  ultimately show ?thesis using f g d by blast
qed

subsection \<open>C6: the candidates of the list mode\<close>



subsection \<open>C7: the template step\<close>

text \<open>
  Claim C7. The template step replaces \<^verbatim>\<open>{COMMIT_MESSAGE}\<close> in the template by the message;
  when the result contains \<^verbatim>\<open>{GIT_BRANCH}\<close> it runs \<^verbatim>\<open>git branch --show-current\<close> once
  and replaces \<^verbatim>\<open>{GIT_BRANCH}\<close> by the trimmed output (a failure of the command ends the
  process), and otherwise it runs nothing. A template without \<^verbatim>\<open>{COMMIT_MESSAGE}\<close> is left
  as it is, and a template with one occurrence gets the message in its place. The template
  \<^verbatim>\<open>[{GIT_BRANCH}] {COMMIT_MESSAGE}\<close> with the message \<^verbatim>\<open>fix: bug\<close> on branch \<^verbatim>\<open>main\<close>
  gives \<^verbatim>\<open>[main] fix: bug\<close>.
\<close>

theorem template_step:
  "processTemplate template commitMessage w =
     (if Contains (ReplaceAll template ''{COMMIT_MESSAGE}'' commitMessage) ''{GIT_BRANCH}'' then
        (case gitBranch w 0 of
           Inl err \<Rightarrow> logFatal err (snd (runGitBranch w))
         | Inr output \<Rightarrow>
             (Ret (ReplaceAll (ReplaceAll template ''{COMMIT_MESSAGE}'' commitMessage)
                     ''{GIT_BRANCH}'' (TrimSpace output)),
              snd (runGitBranch w)))
      else (Ret (ReplaceAll template ''{COMMIT_MESSAGE}'' commitMessage), w))
   \<and> trace (snd (runGitBranch w)) = trace w @ [Exec [''git'', ''branch'', ''--show-current'']]
   \<and> (\<not> Contains template ''{COMMIT_MESSAGE}'' \<longrightarrow>
        ReplaceAll template ''{COMMIT_MESSAGE}'' commitMessage = template)
   \<and> (\<forall>a b. template = a @ ''{COMMIT_MESSAGE}'' @ b
          \<and> (\<forall>k < length a. \<not> HasPrefix (drop k template) ''{COMMIT_MESSAGE}'')
          \<and> \<not> Contains b ''{COMMIT_MESSAGE}''
        \<longrightarrow> ReplaceAll template ''{COMMIT_MESSAGE}'' commitMessage = a @ commitMessage @ b)
   \<and> (gitBranch w 0 = Inr ''main\<newline>'' \<longrightarrow>
        fst (processTemplate ''[{GIT_BRANCH}] {COMMIT_MESSAGE}'' ''fix: bug'' w) = Ret ''[main] fix: bug'')"
proof -
  have absent: "\<not> Contains template ''{COMMIT_MESSAGE}'' \<longrightarrow>
        ReplaceAll template ''{COMMIT_MESSAGE}'' commitMessage = template"
    using ReplaceAll_absent [of "''{COMMIT_MESSAGE}''" template commitMessage] by simp
  have once: "\<forall>a b. template = a @ ''{COMMIT_MESSAGE}'' @ b
          \<and> (\<forall>k < length a. \<not> HasPrefix (drop k template) ''{COMMIT_MESSAGE}'')
          \<and> \<not> Contains b ''{COMMIT_MESSAGE}''
        \<longrightarrow> ReplaceAll template ''{COMMIT_MESSAGE}'' commitMessage = a @ commitMessage @ b"
    using ReplaceAll_once [of "''{COMMIT_MESSAGE}''" template _ _ commitMessage] by blast
  have ex: "gitBranch w 0 = Inr ''main\<newline>'' \<longrightarrow>
        fst (processTemplate ''[{GIT_BRANCH}] {COMMIT_MESSAGE}'' ''fix: bug'' w) = Ret ''[main] fix: bug''"
  proof
    assume g: "gitBranch w 0 = Inr ''main\<newline>''"
    have a: "ReplaceAll ''[{GIT_BRANCH}] {COMMIT_MESSAGE}'' ''{COMMIT_MESSAGE}'' ''fix: bug''
               = ''[{GIT_BRANCH}] fix: bug''"
      by code_simp
    have b: "Contains ''[{GIT_BRANCH}] fix: bug'' ''{GIT_BRANCH}''" by code_simp
    have c: "TrimSpace ''main\<newline>'' = ''main''" by code_simp
    have d: "ReplaceAll ''[{GIT_BRANCH}] fix: bug'' ''{GIT_BRANCH}'' ''main'' = ''[main] fix: bug''"
      by code_simp
    show "fst (processTemplate ''[{GIT_BRANCH}] {COMMIT_MESSAGE}'' ''fix: bug'' w) = Ret ''[main] fix: bug''"
      unfolding processTemplate_unfold a using b by (simp add: g c d del: Contains.simps)
  qed
  from processTemplate_unfold [of template commitMessage w] runGitBranch_trace [of w] absent once ex
  show ?thesis by blast
qed

theorem template_step_witness:
  "fst (processTemplate ''[{GIT_BRANCH}] {COMMIT_MESSAGE}'' ''fix: bug'' exampleWorld)
     = Ret ''[main] fix: bug''
   \<and> \<not> Contains ''plain text'' ''{COMMIT_MESSAGE}''
   \<and> ReplaceAll ''plain text'' ''{COMMIT_MESSAGE}'' ''fix: bug'' = ''plain text''
   \<and> ReplaceAll ''<{COMMIT_MESSAGE}>'' ''{COMMIT_MESSAGE}'' ''fix: bug'' = ''<'' @ ''fix: bug'' @ ''>''"
proof -
  have g: "gitBranch exampleWorld 0 = Inr ''main\<newline>''" by (simp add: exampleWorld_def)
  have n: "\<not> Contains ''plain text'' ''{COMMIT_MESSAGE}''" by code_simp
  have d: "''<{COMMIT_MESSAGE}>'' = ''<'' @ ''{COMMIT_MESSAGE}'' @ ''>''" by simp
  have k: "\<forall>k < length ''<''. \<not> HasPrefix (drop k ''<{COMMIT_MESSAGE}>'') ''{COMMIT_MESSAGE}''"
    by simp
  have m: "\<not> Contains ''>'' ''{COMMIT_MESSAGE}''" by code_simp
  from template_step [of "''[{GIT_BRANCH}] {COMMIT_MESSAGE}''" "''fix: bug''" exampleWorld] g
  have 1: "fst (processTemplate ''[{GIT_BRANCH}] {COMMIT_MESSAGE}'' ''fix: bug'' exampleWorld)
     = Ret ''[main] fix: bug''" by blast
  from template_step [of "''plain text''" "''fix: bug''" exampleWorld] n
  have 2: "ReplaceAll ''plain text'' ''{COMMIT_MESSAGE}'' ''fix: bug'' = ''plain text''" by blast
  from template_step [of "''<{COMMIT_MESSAGE}>''" "''fix: bug''" exampleWorld] d k m
  have 3: "ReplaceAll ''<{COMMIT_MESSAGE}>'' ''{COMMIT_MESSAGE}'' ''fix: bug'' = ''<'' @ ''fix: bug'' @ ''>''"
    by blast
  from 1 n 2 3 show ?thesis by blast
qed

subsection \<open>C8: the diff collector is a line filter\<close>



subsection \<open>C9: the sentinel is recognised by its text\<close>



subsection \<open>C10: a branch placeholder inside the message\<close>

text \<open>
  Claim C10. The message is put into the template first, and the branch placeholder is
  looked for in the result: when the template contains \<^verbatim>\<open>{COMMIT_MESSAGE}\<close> and the message
  contains \<^verbatim>\<open>{GIT_BRANCH}\<close>, the result contains \<^verbatim>\<open>{GIT_BRANCH}\<close>, so the step runs
  \<^verbatim>\<open>git branch --show-current\<close> and replaces the placeholder in the whole result, also
  where it came from the message and also when the template itself has no branch
  placeholder.
\<close>

theorem template_branch_in_message:
  assumes "Contains template ''{COMMIT_MESSAGE}''" and "Contains commitMessage ''{GIT_BRANCH}''"
  shows "Contains (ReplaceAll template ''{COMMIT_MESSAGE}'' commitMessage) ''{GIT_BRANCH}''
    \<and> processTemplate template commitMessage w =
        (case gitBranch w 0 of
           Inl err \<Rightarrow> logFatal err (snd (runGitBranch w))
         | Inr output \<Rightarrow>
             (Ret (ReplaceAll (ReplaceAll template ''{COMMIT_MESSAGE}'' commitMessage)
                     ''{GIT_BRANCH}'' (TrimSpace output)),
              snd (runGitBranch w)))
    \<and> trace (snd (runGitBranch w)) = trace w @ [Exec [''git'', ''branch'', ''--show-current'']]"
proof -
  have c: "Contains (ReplaceAll template ''{COMMIT_MESSAGE}'' commitMessage) ''{GIT_BRANCH}''"
    using Contains_ReplaceAll [OF _ assms] by simp
  then show ?thesis
    using processTemplate_unfold [of template commitMessage w] runGitBranch_trace [of w] by simp
qed

theorem template_branch_in_message_witness:
  "Contains ''{COMMIT_MESSAGE}'' ''{COMMIT_MESSAGE}''
   \<and> \<not> Contains ''{COMMIT_MESSAGE}'' ''{GIT_BRANCH}''
   \<and> Contains ''wip on {GIT_BRANCH}'' ''{GIT_BRANCH}''
   \<and> fst (processTemplate ''{COMMIT_MESSAGE}'' ''wip on {GIT_BRANCH}'' exampleWorld) = Ret ''wip on main''
   \<and> trace (snd (processTemplate ''{COMMIT_MESSAGE}'' ''wip on {GIT_BRANCH}'' exampleWorld))
       = [Exec [''git'', ''branch'', ''--show-current'']]"
proof -
  have a: "Contains ''{COMMIT_MESSAGE}'' ''{COMMIT_MESSAGE}''" by code_simp
  have b: "Contains ''wip on {GIT_BRANCH}'' ''{GIT_BRANCH}''" by code_simp
  have c: "\<not> Contains ''{COMMIT_MESSAGE}'' ''{GIT_BRANCH}''" by code_simp
  have g: "gitBranch exampleWorld 0 = Inr ''main\<newline>''" by (simp add: exampleWorld_def)
  have t: "trace exampleWorld = []" by (simp add: exampleWorld_def)
  have r: "ReplaceAll (ReplaceAll ''{COMMIT_MESSAGE}'' ''{COMMIT_MESSAGE}'' ''wip on {GIT_BRANCH}'')
             ''{GIT_BRANCH}'' (TrimSpace ''main\<newline>'') = ''wip on main''" by code_simp
  from template_branch_in_message [OF a b, of exampleWorld] g r
  have p: "processTemplate ''{COMMIT_MESSAGE}'' ''wip on {GIT_BRANCH}'' exampleWorld =
        (Ret ''wip on main'', snd (runGitBranch exampleWorld))"
    and q: "trace (snd (runGitBranch exampleWorld)) = trace exampleWorld @ [Exec [''git'', ''branch'', ''--show-current'']]"
    by simp_all
  from a c b p q t show ?thesis by simp
qed

end
